(* ===== verification/Chan_Prelude.thy ===== *)
theory Chan_Prelude
  imports Main "HOL-Library.Word" "HOL-Library.Char_ord" "HOL-Library.List_Lexorder"
begin

text \<open>
  Shared vocabulary of the development: the result type of a C++ call that may throw, block or
  run into behaviour the language leaves undefined; the fixed-width integer conversions; raw
  memory as a list of cells with a bounds-checked \<open>memcpy\<close>; and the parts of \<open>std::string\<close>
  the sources use (\<open>c_str\<close>, \<open>find\<close>, \<open>substr\<close>).
\<close>

named_theorems res_simps \<open>equations and splits of the result type\<close>
named_theorems mem_simps \<open>equations of the memory primitives\<close>

section \<open>Results of C++ calls\<close>

text \<open>
  \<open>EventException\<close> is the class of \<^verbatim>\<open>core/include/event_exception.h\<close>; \<open>StringException\<close> is the
  \<open>std::string\<close> thrown by the configuration reader; \<open>Ice_Exception\<close> is any \<open>Ice::Exception\<close>;
  the next three are exceptions of the standard library; \<open>Undefined\<close> marks a call the language
  gives no meaning to (an access out of bounds, a signed overflow, a division by zero, a failed
  assertion, a null dereference), with the operation that caused it.
\<close>

datatype cxx_error =
    EventException string
  | StringException string
  | Ice_Exception string
  | OutOfRange
  | LengthError
  | BadAlloc
  | Undefined string

text \<open>\<open>Blocks\<close> is a thread that waits on a condition nobody has established yet.\<close>

datatype 'a res = Ok 'a | Throw cxx_error | Blocks

primrec res_bind :: "'a res \<Rightarrow> ('a \<Rightarrow> 'b res) \<Rightarrow> 'b res" where
  "res_bind (Ok x) f = f x"
| "res_bind (Throw e) f = Throw e"
| "res_bind Blocks f = Blocks"

text \<open>A loop over a container whose body updates a state and may throw.\<close>

fun res_fold :: "('a \<Rightarrow> 's \<Rightarrow> 's res) \<Rightarrow> 'a list \<Rightarrow> 's \<Rightarrow> 's res" where
  "res_fold f [] s = Ok s"
| "res_fold f (x # xs) s = res_bind (f x s) (res_fold f xs)"

lemma res_bind_Ok_iff [res_simps]:
  "res_bind r f = Ok y \<longleftrightarrow> (\<exists>x. r = Ok x \<and> f x = Ok y)"
  by (cases r) auto

lemma res_bind_Throw_iff [res_simps]:
  "res_bind r f = Throw e \<longleftrightarrow> r = Throw e \<or> (\<exists>x. r = Ok x \<and> f x = Throw e)"
  by (cases r) auto

lemma res_bind_Blocks_iff [res_simps]:
  "res_bind r f = Blocks \<longleftrightarrow> r = Blocks \<or> (\<exists>x. r = Ok x \<and> f x = Blocks)"
  by (cases r) auto

lemma res_bind_assoc: "res_bind (res_bind r f) g = res_bind r (\<lambda>x. res_bind (f x) g)"
  by (cases r) auto

lemma res_fold_append:
  "res_fold f (xs @ ys) s = res_bind (res_fold f xs s) (res_fold f ys)"
proof (induction xs arbitrary: s)
  case (Cons x xs)
  then show ?case by (cases "f x s") simp_all
qed simp

text \<open>An invariant of the loop body is an invariant of the loop.\<close>

lemma res_fold_inv:
  assumes "res_fold f xs s = Ok t" and "P s"
    and "\<And>x s s'. x \<in> set xs \<Longrightarrow> P s \<Longrightarrow> f x s = Ok s' \<Longrightarrow> P s'"
  shows "P t"
  using assms by (induction xs arbitrary: s) (auto simp: res_bind_Ok_iff)

text \<open>A loop whose body never throws on the states it meets never throws.\<close>

lemma res_fold_total:
  assumes "P s" and "\<And>x s. x \<in> set xs \<Longrightarrow> P s \<Longrightarrow> \<exists>s'. f x s = Ok s' \<and> P s'"
  shows "\<exists>t. res_fold f xs s = Ok t \<and> P t"
  using assms
proof (induction xs arbitrary: s)
  case Nil
  then show ?case by simp
next
  case (Cons x xs)
  then obtain s' where "f x s = Ok s'" "P s'" by fastforce
  moreover have "\<exists>t. res_fold f xs s' = Ok t \<and> P t"
    using Cons.IH [of s'] Cons.prems(2) \<open>P s'\<close> by simp
  ultimately show ?case by simp
qed

section \<open>Fixed-width integers\<close>

text \<open>
  Values are kept as \<open>int\<close>. \<open>to_i32\<close>, \<open>to_u64\<close> and their kin are the conversions to
  \<open>int32_t\<close>, \<open>uint64_t\<close> and so on (two's complement wrap-around); \<open>i32_ok\<close> says that a signed
  32-bit computation has not overflowed.
\<close>

definition i32_ok :: "int \<Rightarrow> bool" where
  "i32_ok x \<longleftrightarrow> - (2 ^ 31) \<le> x \<and> x < 2 ^ 31"

definition to_i32 :: "int \<Rightarrow> int" where
  "to_i32 x = (x + 2 ^ 31) mod 2 ^ 32 - 2 ^ 31"

definition to_i64 :: "int \<Rightarrow> int" where
  "to_i64 x = (x + 2 ^ 63) mod 2 ^ 64 - 2 ^ 63"

definition to_u64 :: "int \<Rightarrow> int" where
  "to_u64 x = x mod 2 ^ 64"

definition to_u8 :: "int \<Rightarrow> int" where
  "to_u8 x = x mod 2 ^ 8"

text \<open>C++ integer division truncates towards zero.\<close>

definition c_div :: "int \<Rightarrow> int \<Rightarrow> int" where
  "c_div a b = sgn a * sgn b * (\<bar>a\<bar> div \<bar>b\<bar>)"

lemma to_i32_id [simp]: "i32_ok x \<Longrightarrow> to_i32 x = x"
  by (simp add: to_i32_def i32_ok_def)

lemma to_i32_ok: "i32_ok (to_i32 x)"
proof -
  have "0 \<le> (x + 2 ^ 31) mod 2 ^ 32" "(x + 2 ^ 31) mod 2 ^ 32 < 2 ^ 32"
    by (rule pos_mod_sign, simp) (rule pos_mod_bound, simp)
  then show ?thesis by (simp add: i32_ok_def to_i32_def)
qed

lemma to_u64_id [simp]: "0 \<le> x \<Longrightarrow> x < 2 ^ 64 \<Longrightarrow> to_u64 x = x"
  by (simp add: to_u64_def)

lemma c_div_nonneg: "0 \<le> a \<Longrightarrow> 0 < b \<Longrightarrow> c_div a b = a div b"
  by (cases "a = 0") (auto simp: c_div_def)

section \<open>Raw memory\<close>

text \<open>
  A byte of memory is \<open>None\<close> until something has been written to it (the cells of
  \<open>new char[n]\<close> are indeterminate). \<open>memcpy dst doff src soff n\<close> copies \<open>n\<close> cells, and is
  undefined unless both ranges lie inside their objects.
\<close>

type_synonym byte = "8 word"
type_synonym cell = "byte option"

definition memcpy :: "'a list \<Rightarrow> int \<Rightarrow> 'a list \<Rightarrow> int \<Rightarrow> int \<Rightarrow> 'a list res" where
  "memcpy dst doff src soff n =
     (if 0 \<le> n \<and> 0 \<le> doff \<and> doff + n \<le> int (length dst) \<and> 0 \<le> soff \<and> soff + n \<le> int (length src)
      then Ok (take (nat doff) dst @ take (nat n) (drop (nat soff) src) @ drop (nat (doff + n)) dst)
      else Throw (Undefined ''memcpy''))"

lemma memcpy_nat [mem_simps]:
  "doff + n \<le> length dst \<Longrightarrow> soff + n \<le> length src \<Longrightarrow>
   memcpy dst (int doff) src (int soff) (int n) =
     Ok (take doff dst @ take n (drop soff src) @ drop (doff + n) dst)"
  by (simp add: memcpy_def nat_add_distrib)

lemma memcpy_not_Blocks [simp]: "memcpy dst doff src soff n \<noteq> Blocks"
  by (simp add: memcpy_def)

lemma memcpy_length: "memcpy dst doff src soff n = Ok d \<Longrightarrow> length d = length dst"
  by (auto simp: memcpy_def min_def split: if_splits)

section \<open>Strings\<close>

text \<open>\<open>std::string(s.c_str())\<close>: what is left of a string once it has been through a C string.\<close>

definition c_str :: "string \<Rightarrow> string" where
  "c_str s = takeWhile (\<lambda>c. c \<noteq> CHR 0x00) s"

lemma c_str_id: "CHR 0x00 \<notin> set s \<Longrightarrow> c_str s = s"
  by (auto simp: c_str_def takeWhile_eq_all_conv)

lemma c_str_no_nul: "CHR 0x00 \<notin> set (c_str s)"
  unfolding c_str_def by (metis (mono_tags, lifting) set_takeWhileD)

text \<open>\<open>s.find(c)\<close> for one character: the first position, or \<open>npos\<close>.\<close>

fun str_find :: "char \<Rightarrow> string \<Rightarrow> nat option" where
  "str_find c [] = None"
| "str_find c (x # xs) = (if x = c then Some 0 else map_option Suc (str_find c xs))"

text \<open>\<open>s.substr(pos, n)\<close> for a position inside the string.\<close>

definition substr :: "string \<Rightarrow> nat \<Rightarrow> nat \<Rightarrow> string" where
  "substr s pos n = take n (drop pos s)"

lemma str_find_None_iff: "str_find c s = None \<longleftrightarrow> c \<notin> set s"
  by (induction s) auto

lemma str_find_Some_split:
  "str_find c s = Some k \<Longrightarrow> s = take k s @ c # drop (Suc k) s \<and> c \<notin> set (take k s) \<and> k < length s"
  by (induction s arbitrary: k) (auto split: if_splits)

lemma str_find_append: "c \<notin> set p \<Longrightarrow> str_find c (p @ c # q) = Some (length p)"
  by (induction p) auto

end
