(* ===== verification/Cxx_Float.thy ===== *)
theory Cxx_Float
  imports Chan_Prelude Complex_Main "HOL-Library.Log_Nat"
begin

text \<open>
  The floating-point arithmetic the sources use (\<open>float\<close> timeouts of the configuration,
  \<open>double\<close> seconds of the timer), as rationals rounded to nearest, ties to even, at the
  precision of the type. Exponents are bounded below (subnormals) but not above: a value past
  the largest finite one is only ever converted to an integer type here, and that conversion
  is undefined for the rational as it is for the infinity.
\<close>

definition round_half_even :: "rat \<Rightarrow> int" where
  "round_half_even y =
     (let q = \<lfloor>y\<rfloor>; r = y - of_int q
      in if r < 1 / 2 then q else if 1 / 2 < r then q + 1 else if even q then q else q + 1)"

text \<open>\<open>2 powi e\<close> is the unit in the last place of a number of the magnitude of \<open>x\<close>.\<close>

definition ulp_exp :: "nat \<Rightarrow> int \<Rightarrow> rat \<Rightarrow> int" where
  "ulp_exp p emin x =
     (case quotient_of \<bar>x\<bar> of (a, b) \<Rightarrow>
        let e0 = bitlen a - bitlen b - int p
        in max emin (if \<bar>x\<bar> < 2 powi (e0 + int p) then e0 else e0 + 1))"

definition round_bin :: "nat \<Rightarrow> int \<Rightarrow> rat \<Rightarrow> rat" where
  "round_bin p emin x =
     (if x = 0 then 0
      else let e = ulp_exp p emin x
           in sgn x * of_int (round_half_even (\<bar>x\<bar> / 2 powi e)) * 2 powi e)"

definition to_float :: "rat \<Rightarrow> rat" where
  "to_float = round_bin 24 (- 149)"

definition to_double :: "rat \<Rightarrow> rat" where
  "to_double = round_bin 53 (- 1074)"

text \<open>Conversion of a floating-point value to an unsigned integer type of \<open>w\<close> bits.\<close>

definition float_to_uint :: "nat \<Rightarrow> rat \<Rightarrow> int res" where
  "float_to_uint w x =
     (let k = (if x < 0 then - \<lfloor>- x\<rfloor> else \<lfloor>x\<rfloor>)
      in if 0 \<le> k \<and> k < 2 ^ w then Ok k else Throw (Undefined ''float to integer''))"

lemma round_half_even_int [simp]: "round_half_even (of_int k) = k"
  by (simp add: round_half_even_def)

lemma ulp_exp_int_nonpos:
  assumes "k \<noteq> 0" "\<bar>k\<bar> < 2 ^ p" "emin \<le> 0"
  shows "ulp_exp p emin (of_int k) \<le> 0"
proof -
  have q: "quotient_of \<bar>of_int k\<bar> = (\<bar>k\<bar>, 1)"
    by (simp flip: of_int_abs)
  have "bitlen \<bar>k\<bar> \<le> int p"
    using assms bitlen_le_iff_power [of "\<bar>k\<bar>" "int p"] by simp
  moreover have "bitlen (1::int) = 1" by (simp add: bitlen_alt_def)
  ultimately show ?thesis
    using assms by (auto simp: ulp_exp_def q Let_def)
qed

text \<open>Integers that fit the significand are exact.\<close>

lemma round_bin_int:
  assumes "\<bar>k\<bar> < 2 ^ p" "emin \<le> 0"
  shows "round_bin p emin (of_int k) = of_int k"
proof (cases "k = 0")
  case False
  define e where "e = ulp_exp p emin (of_int k)"
  have e: "e \<le> 0" unfolding e_def by (rule ulp_exp_int_nonpos [OF False assms])
  have pw: "(2::rat) powi e = inverse (2 ^ nat (- e))"
    using e by (auto simp: power_int_def power_one_over inverse_eq_divide)
  have "\<bar>of_int k\<bar> / (2::rat) powi e = of_int (\<bar>k\<bar> * 2 ^ nat (- e))"
    by (simp add: pw divide_inverse)
  then have "round_half_even (\<bar>of_int k\<bar> / 2 powi e) = \<bar>k\<bar> * 2 ^ nat (- e)"
    by (simp only: round_half_even_int)
  then show ?thesis
    using False
    by (simp add: round_bin_def Let_def e_def [symmetric] pw mult.assoc [symmetric] sgn_mult_abs)
qed (simp add: round_bin_def)

lemma to_float_int: "\<bar>k\<bar> < 2 ^ 24 \<Longrightarrow> to_float (of_int k) = of_int k"
  by (simp add: to_float_def round_bin_int)

lemma to_double_int: "\<bar>k\<bar> < 2 ^ 53 \<Longrightarrow> to_double (of_int k) = of_int k"
  by (simp add: to_double_def round_bin_int)

lemma float_to_uint_int: "0 \<le> k \<Longrightarrow> k < 2 ^ w \<Longrightarrow> float_to_uint w (of_int k) = Ok k"
  by (simp add: float_to_uint_def)

lemma float_to_uint_bounds: "float_to_uint w x = Ok k \<Longrightarrow> 0 \<le> k \<and> k < 2 ^ w"
  by (simp add: float_to_uint_def Let_def split: if_splits)

end
