(* ===== verification/Json.thy ===== *)
theory Json
  imports Cxx_Float
begin

text \<open>
  The document the configuration is read from: the values of the parser's DOM and the accessors
  \<^verbatim>\<open>core/src/config.cc\<close> goes through (\<^verbatim>\<open>third_party/rapidjson/include/rapidjson/document.h\<close>). An
  accessor applied to a value of another type fails an assertion. A number is an integer or the
  \<open>double\<close> it was parsed to.
\<close>

datatype json =
    JNull
  | JBool bool
  | JInt int
  | JDouble rat
  | JString string
  | JArray "json list"
  | JObject "(string \<times> json) list"

definition rj_assert :: "'a res" where
  "rj_assert = Throw (Undefined ''assert'')"

text \<open>\<open>FindMember\<close> returns the first member of the name.\<close>

definition FindMember :: "string \<Rightarrow> json \<Rightarrow> json option res" where
  "FindMember name v = (case v of JObject ms \<Rightarrow> Ok (map_of ms name) | _ \<Rightarrow> rj_assert)"

definition HasMember :: "string \<Rightarrow> json \<Rightarrow> bool res" where
  "HasMember name v = res_bind (FindMember name v) (\<lambda>m. Ok (m \<noteq> None))"

definition json_index :: "string \<Rightarrow> json \<Rightarrow> json res" where
  "json_index name v =
     res_bind (FindMember name v) (\<lambda>m. case m of Some w \<Rightarrow> Ok w | None \<Rightarrow> rj_assert)"

text \<open>\<open>GetString\<close> returns a C string, which every caller turns into a \<open>std::string\<close>.\<close>

definition json_string :: "json \<Rightarrow> string res" where
  "json_string v = (case v of JString s \<Rightarrow> Ok (c_str s) | _ \<Rightarrow> rj_assert)"

definition json_int :: "json \<Rightarrow> int res" where
  "json_int v = (case v of JInt i \<Rightarrow> if i32_ok i then Ok i else rj_assert | _ \<Rightarrow> rj_assert)"

definition json_double :: "json \<Rightarrow> rat res" where
  "json_double v =
     (case v of JDouble d \<Rightarrow> Ok d | JInt i \<Rightarrow> Ok (to_double (of_int i)) | _ \<Rightarrow> rj_assert)"

definition json_float :: "json \<Rightarrow> rat res" where
  "json_float v = res_bind (json_double v) (\<lambda>d. Ok (to_float d))"

definition json_bool :: "json \<Rightarrow> bool res" where
  "json_bool v = (case v of JBool b \<Rightarrow> Ok b | _ \<Rightarrow> rj_assert)"

definition is_object :: "json \<Rightarrow> bool" where
  "is_object v = (case v of JObject _ \<Rightarrow> True | _ \<Rightarrow> False)"

definition is_array :: "json \<Rightarrow> bool" where
  "is_array v = (case v of JArray _ \<Rightarrow> True | _ \<Rightarrow> False)"

definition is_string :: "json \<Rightarrow> bool" where
  "is_string v = (case v of JString _ \<Rightarrow> True | _ \<Rightarrow> False)"

section \<open>The readers of config.cc\<close>

definition if_key_not_exist_then_exit :: "bool \<Rightarrow> string \<Rightarrow> unit res" where
  "if_key_not_exist_then_exit must_exist key =
     (if must_exist then Throw (StringException (''key['' @ key @ ''] not exist!'')) else Ok ())"

text \<open>The four readers differ in the accessor only.\<close>

definition get_value :: "(json \<Rightarrow> 'a res) \<Rightarrow> json \<Rightarrow> string \<Rightarrow> 'a \<Rightarrow> bool \<Rightarrow> 'a res" where
  "get_value acc v key default_value must_exist =
     res_bind (HasMember key v) (\<lambda>has.
     if has then res_bind (json_index key v) acc
     else res_bind (if_key_not_exist_then_exit must_exist key) (\<lambda>_. Ok default_value))"

definition GetString :: "json \<Rightarrow> string \<Rightarrow> string \<Rightarrow> bool \<Rightarrow> string res" where
  "GetString v key default_value must_exist = get_value json_string v key (c_str default_value) must_exist"

definition GetInt :: "json \<Rightarrow> string \<Rightarrow> int \<Rightarrow> bool \<Rightarrow> int res" where
  "GetInt = get_value json_int"

definition GetFloat :: "json \<Rightarrow> string \<Rightarrow> rat \<Rightarrow> bool \<Rightarrow> rat res" where
  "GetFloat = get_value json_float"

definition GetBool :: "json \<Rightarrow> string \<Rightarrow> bool \<Rightarrow> bool \<Rightarrow> bool res" where
  "GetBool = get_value json_bool"

lemma get_value_object:
  "get_value acc (JObject ms) key d must =
     (case map_of ms key of
        Some v \<Rightarrow> acc v
      | None \<Rightarrow> if must then Throw (StringException (''key['' @ key @ ''] not exist!'')) else Ok d)"
  by (simp add: get_value_def HasMember_def FindMember_def json_index_def
    if_key_not_exist_then_exit_def split: option.split)

end
