(* ===== verification/Std_Containers.thy ===== *)
theory Std_Containers
  imports Chan_Prelude
begin

text \<open>
  \<open>std::map\<close> and \<open>std::set\<close> as the sources use them: iteration is in key order, \<open>insert\<close> and
  \<open>emplace\<close> keep the element already present, \<open>operator[]\<close> inserts a default. A map is its list
  of entries in key order; a set whose elements are compared by a key is the list of its elements
  in key order.
\<close>

fun set_insert_by :: "('a \<Rightarrow> 'k::linorder) \<Rightarrow> 'a \<Rightarrow> 'a list \<Rightarrow> 'a list" where
  "set_insert_by f x [] = [x]"
| "set_insert_by f x (y # ys) =
     (if f x < f y then x # y # ys
      else if f x = f y then y # ys
      else y # set_insert_by f x ys)"

abbreviation set_insert :: "'k::linorder \<Rightarrow> 'k list \<Rightarrow> 'k list" where
  "set_insert \<equiv> set_insert_by (\<lambda>x. x)"

definition map_insert :: "'k::linorder \<Rightarrow> 'v \<Rightarrow> ('k \<times> 'v) list \<Rightarrow> ('k \<times> 'v) list" where
  "map_insert k v m = set_insert_by fst (k, v) m"

text \<open>\<open>operator[]\<close>: the value, and the map with a default inserted where there was none.\<close>

definition map_index :: "'k::linorder \<Rightarrow> 'v \<Rightarrow> ('k \<times> 'v) list \<Rightarrow> 'v \<times> ('k \<times> 'v) list" where
  "map_index k d m = (case map_of m k of Some v \<Rightarrow> (v, m) | None \<Rightarrow> (d, map_insert k d m))"

definition ordered_by :: "('a \<Rightarrow> 'k::linorder) \<Rightarrow> 'a list \<Rightarrow> bool" where
  "ordered_by f xs \<longleftrightarrow> sorted_wrt (\<lambda>x y. f x < f y) xs"

lemma ordered_by_simps [simp]:
  "ordered_by f []"
  "ordered_by f (x # xs) \<longleftrightarrow> (\<forall>y \<in> set xs. f x < f y) \<and> ordered_by f xs"
  by (simp_all add: ordered_by_def)

lemma ordered_by_distinct: "ordered_by f xs \<Longrightarrow> distinct (map f xs)"
  by (induction xs) auto

text \<open>Inserting adds the element unless one with its key is there, and keeps the order.\<close>

lemma set_insert_by_set:
  "ordered_by f xs \<Longrightarrow> set (set_insert_by f x xs) = (if f x \<in> f ` set xs then set xs else insert x (set xs))"
  by (induction xs) auto

lemma set_insert_by_ordered: "ordered_by f xs \<Longrightarrow> ordered_by f (set_insert_by f x xs)"
proof (induction xs)
  case (Cons y ys)
  then show ?case
    by (auto simp: set_insert_by_set split: if_splits)
qed simp

lemma set_insert_set [simp]: "ordered_by (\<lambda>x. x) xs \<Longrightarrow> set (set_insert x xs) = insert x (set xs)"
  by (auto simp: set_insert_by_set)

lemma keys_of_insert: "ordered_by f xs \<Longrightarrow> f ` set (set_insert_by f x xs) = insert (f x) (f ` set xs)"
  by (auto simp: set_insert_by_set)

lemma map_insert_lookup:
  assumes "ordered_by fst m"
  shows "map_of (map_insert k v m) j =
    (if j = k then (case map_of m k of None \<Rightarrow> Some v | Some w \<Rightarrow> Some w) else map_of m j)"
  using assms
proof (induction m)
  case (Cons e m)
  obtain k' v' where e: "e = (k', v')" by force
  have "map_of m k = None" if "k < k'"
    using Cons.prems that by (force simp: e map_of_eq_None_iff)
  then show ?case using Cons by (auto simp: map_insert_def e split: option.splits)
qed (simp add: map_insert_def)

lemma map_insert_ordered: "ordered_by fst m \<Longrightarrow> ordered_by fst (map_insert k v m)"
  unfolding map_insert_def by (rule set_insert_by_ordered)

text \<open>
  The interface of an insert-once dictionary, whatever holds the entries: what its clients may
  rely on when they fill it from a list and look keys up.
\<close>

locale keep_first_map =
  fixes ok :: "'m \<Rightarrow> bool"
    and look :: "'m \<Rightarrow> 'k \<Rightarrow> 'v option"
    and ins :: "'k \<Rightarrow> 'v \<Rightarrow> 'm \<Rightarrow> 'm"
  assumes ins_ok: "ok m \<Longrightarrow> ok (ins k v m)"
    and ins_look: "ok m \<Longrightarrow> look (ins k v m) j =
      (if j = k then (case look m k of None \<Rightarrow> Some v | Some w \<Rightarrow> Some w) else look m j)"
begin

lemma fold_ok: "ok m \<Longrightarrow> ok (fold (\<lambda>(k, v). ins k v) es m)"
  by (induction es arbitrary: m) (auto simp: ins_ok)

text \<open>Filling it from a list: what was there wins, then the first entry of the list.\<close>

lemma fold_look:
  "ok m \<Longrightarrow> look (fold (\<lambda>(k, v). ins k v) es m) j =
     (case look m j of Some w \<Rightarrow> Some w | None \<Rightarrow> map_of es j)"
proof (induction es arbitrary: m)
  case (Cons e es)
  then show ?case by (cases e) (auto simp: ins_ok ins_look split: option.splits)
qed (simp split: option.split)

end

interpretation om: keep_first_map "ordered_by fst" map_of map_insert
  by unfold_locales (simp_all add: map_insert_ordered map_insert_lookup)

text \<open>The loops the sources fill a set and a map with.\<close>

lemma fold_set_insert:
  assumes "ordered_by (\<lambda>x. x) s"
  shows "ordered_by (\<lambda>x. x) (fold set_insert xs s) \<and> set (fold set_insert xs s) = set xs \<union> set s"
  using assms by (induction xs arbitrary: s) (auto simp: set_insert_by_ordered)

end
