(* ===== verification/Events.thy ===== *)
theory Events
  imports Chan_Prelude Complex_Main
begin

text \<open>
  \<^verbatim>\<open>core/include/const.h\<close> and \<^verbatim>\<open>core/include/event_exception.h\<close>: the property keys and event codes,
  the table of event messages, the function every component reports a failure with, and the
  filter that makes an Ice identity out of a task and a node identifier.
\<close>

section \<open>Constants\<close>

definition C_Servant_Adapter_Name :: string where
  "C_Servant_Adapter_Name = ''IoChannel''"

definition C_Servant_Endpoints_Key :: string where
  "C_Servant_Endpoints_Key = C_Servant_Adapter_Name @ ''.Endpoints''"

definition C_Servant_AdapterId_Key :: string where
  "C_Servant_AdapterId_Key = C_Servant_Adapter_Name @ ''.AdapterId''"

definition C_Server_Proxy_Key :: string where
  "C_Server_Proxy_Key = ''IoChannel.Proxy''"

definition C_Servant_Id_Prefix :: string where
  "C_Servant_Id_Prefix = ''IoChannel_''"

definition C_Servant_Adapter_Id_Prefix :: string where
  "C_Servant_Adapter_Id_Prefix = ''ChannelAdapter_''"

definition C_Glacier2_Router_Key :: string where
  "C_Glacier2_Router_Key = ''Ice.Default.Router''"

definition C_IceGrid_Locator_Key :: string where
  "C_IceGrid_Locator_Key = ''Ice.Default.Locator''"

definition C_MAX_SIZE_KEY :: string where
  "C_MAX_SIZE_KEY = ''Ice.MessageSizeMax''"

definition C_EVENT_CODE_PARSE_FILE :: string where "C_EVENT_CODE_PARSE_FILE = ''0402000''"

definition C_EVENT_CODE_NO_FIND_NID :: string where "C_EVENT_CODE_NO_FIND_NID = ''0402001''"

definition C_EVENT_CODE_NO_PUBLIC_IP :: string where "C_EVENT_CODE_NO_PUBLIC_IP = ''0402002''"

definition C_EVENT_CODE_NO_GLACIER2 :: string where "C_EVENT_CODE_NO_GLACIER2 = ''0402003''"

definition C_EVENT_CODE_NO_ICEGRID :: string where "C_EVENT_CODE_NO_ICEGRID = ''0402004''"

definition C_EVENT_CODE_INVALID_CERT :: string where "C_EVENT_CODE_INVALID_CERT = ''0402005''"

definition C_EVENT_CODE_START_SERVICE :: string where "C_EVENT_CODE_START_SERVICE = ''0402006''"

definition C_EVENT_CODE_CREATE_CLIENT :: string where "C_EVENT_CODE_CREATE_CLIENT = ''0402007''"

definition C_EVENT_CODE_INVALID_PROXY :: string where "C_EVENT_CODE_INVALID_PROXY = ''0402008''"

definition C_EVENT_CODE_CONNECT_TIMEOUT :: string where "C_EVENT_CODE_CONNECT_TIMEOUT = ''0402009''"

definition C_EVENT_CODE_SEND_DATA_TIMEOUT :: string where "C_EVENT_CODE_SEND_DATA_TIMEOUT = ''0402010''"

definition C_EVENT_CODE_RECV_DATA_TIMEOUT :: string where "C_EVENT_CODE_RECV_DATA_TIMEOUT = ''0402011''"

definition C_EVENT_CODE_NEITHER_CLIENT_SERVER :: string where
  "C_EVENT_CODE_NEITHER_CLIENT_SERVER = ''0402012''"

lemmas event_codes =
  C_EVENT_CODE_PARSE_FILE_def C_EVENT_CODE_NO_FIND_NID_def C_EVENT_CODE_NO_PUBLIC_IP_def
  C_EVENT_CODE_NO_GLACIER2_def C_EVENT_CODE_NO_ICEGRID_def C_EVENT_CODE_INVALID_CERT_def
  C_EVENT_CODE_START_SERVICE_def C_EVENT_CODE_CREATE_CLIENT_def C_EVENT_CODE_INVALID_PROXY_def
  C_EVENT_CODE_CONNECT_TIMEOUT_def C_EVENT_CODE_SEND_DATA_TIMEOUT_def
  C_EVENT_CODE_RECV_DATA_TIMEOUT_def C_EVENT_CODE_NEITHER_CLIENT_SERVER_def

definition C_MAP_EVENTS :: "(string \<times> string) list" where
  "C_MAP_EVENTS =
    [(C_EVENT_CODE_PARSE_FILE, ''Failed to parse the configuration file, Please check!''),
     (C_EVENT_CODE_NO_FIND_NID, ''No found NodeID:%s, get node info failed!''),
     (C_EVENT_CODE_NO_PUBLIC_IP, ''The service node:%s doesn'' @ [CHR 0x27] @ ''t configure PUBLIC_IP, create io channel failed!''),
     (C_EVENT_CODE_NO_GLACIER2, ''The service node:%s doesn'' @ [CHR 0x27] @ ''t configure Glacier2 info, create io channel failed!''),
     (C_EVENT_CODE_NO_ICEGRID, ''The service node:%s doesn'' @ [CHR 0x27] @ ''t configure IceGrid info, create io channel failed!''),
     (C_EVENT_CODE_INVALID_CERT, ''Invalid certificate, node id:%s, create io channel failed!''),
     (C_EVENT_CODE_START_SERVICE, ''Start the service node:%s failed, reason:%s, create io channel failed!''),
     (C_EVENT_CODE_CREATE_CLIENT, ''Create the client node:%s failed, reason:%s, create io channel failed!''),
     (C_EVENT_CODE_INVALID_PROXY, ''Invalid proxy, node id:%s, create io channel failed!''),
     (C_EVENT_CODE_CONNECT_TIMEOUT, ''%s connect to remote nodeid:%s timeout, The timeout period is:%ldms, create io channel failed!''),
     (C_EVENT_CODE_SEND_DATA_TIMEOUT, ''Self nodeid:%s send data to nodeid:%s timeout, The timeout period is: %ldms, send data failed!''),
     (C_EVENT_CODE_RECV_DATA_TIMEOUT, ''Self nodeid:%s receive data from nodeid:%s timeout, The timeout period is: %ldms, receive data failed!''),
     (C_EVENT_CODE_NEITHER_CLIENT_SERVER, ''This node:%s is neither client nor server, please check connection policy!'')]"

section \<open>Formatting\<close>

text \<open>The variable arguments of \<open>vsnprintf\<close>, by the type they are passed with.\<close>

datatype fmt_arg = StrArg string | LongArg int | DoubleArg rat

fun dec_nat :: "nat \<Rightarrow> string" where
  "dec_nat n = (if n < 10 then [char_of (48 + n)] else dec_nat (n div 10) @ [char_of (48 + n mod 10)])"

declare dec_nat.simps [simp del]

definition dec_int :: "int \<Rightarrow> string" where
  "dec_int i = (if i < 0 then CHR ''-'' # dec_nat (nat (- i)) else dec_nat (nat i))"

text \<open>
  The conversions the messages use, \<open>%s\<close> and \<open>%ld\<close>. An argument of another type than its
  conversion says, a missing argument and any other conversion are undefined.
\<close>

fun c_format :: "string \<Rightarrow> fmt_arg list \<Rightarrow> string res" where
  "c_format [] as = Ok []"
| "c_format (c # cs) as =
     (if c \<noteq> CHR ''%'' then res_bind (c_format cs as) (\<lambda>r. Ok (c # r))
      else (case cs of
          d # cs' \<Rightarrow>
            if d = CHR ''s'' then
              (case as of
                 StrArg s # as' \<Rightarrow> res_bind (c_format cs' as') (\<lambda>r. Ok (c_str s @ r))
               | _ \<Rightarrow> Throw (Undefined ''vsnprintf''))
            else (case cs' of
                e # cs'' \<Rightarrow>
                  if d = CHR ''l'' \<and> e = CHR ''d'' then
                    (case as of
                       LongArg i # as' \<Rightarrow> res_bind (c_format cs'' as') (\<lambda>r. Ok (dec_int i @ r))
                     | _ \<Rightarrow> Throw (Undefined ''vsnprintf''))
                  else Throw (Undefined ''vsnprintf'')
              | [] \<Rightarrow> Throw (Undefined ''vsnprintf''))
        | [] \<Rightarrow> Throw (Undefined ''vsnprintf'')))"

text \<open>
  \<open>HANDLE_EXCEPTION_EVENT\<close>: the message is formatted into 512 zero bytes, of which \<open>vsnprintf\<close>
  writes at most 511, and thrown. \<open>va_start\<close> is given the local variable \<open>strFmt\<close>, not the last
  named parameter, so the language does not say which arguments \<open>args\<close> then lists: what
  \<open>va_start\<close> makes of the arguments passed is the parameter \<open>va\<close>.
\<close>

definition event_buffer :: "string \<Rightarrow> string" where
  "event_buffer s = take 511 s @ replicate (512 - min 511 (length s)) (CHR 0x00)"

definition HANDLE_EXCEPTION_EVENT_va ::
    "(fmt_arg list \<Rightarrow> fmt_arg list res) \<Rightarrow> string \<Rightarrow> string \<Rightarrow> fmt_arg list \<Rightarrow> 'a res" where
  "HANDLE_EXCEPTION_EVENT_va va code taskid args =
     (case map_of C_MAP_EVENTS code of
        None \<Rightarrow> Throw OutOfRange
      | Some fmt \<Rightarrow>
          res_bind (va args) (\<lambda>args.
          res_bind (c_format fmt args) (\<lambda>s. Throw (EventException (event_buffer s)))))"

text \<open>
  The other components report through the function as GCC and Clang compile it: their \<open>va_start\<close>
  ignores its second operand (with a warning) and lists the arguments after the last parameter.
\<close>

definition HANDLE_EXCEPTION_EVENT :: "string \<Rightarrow> string \<Rightarrow> fmt_arg list \<Rightarrow> 'a res" where
  "HANDLE_EXCEPTION_EVENT = HANDLE_EXCEPTION_EVENT_va Ok"

text \<open>\<open>what()\<close> hands the message out as a C string.\<close>

definition event_what :: "string \<Rightarrow> string" where
  "event_what message = c_str message"

section \<open>Identities\<close>

definition C_Illegal_Strings :: string where
  "C_Illegal_Strings = '':@/''"

text \<open>The result is assigned from a C string, so it ends at the first zero character.\<close>

definition FilterIllChar :: "string \<Rightarrow> string" where
  "FilterIllChar s = c_str (map (\<lambda>c. if c \<in> set C_Illegal_Strings then CHR ''_'' else c) s)"

section \<open>Properties\<close>

text \<open>The kinds of argument a format asks for, or \<open>None\<close> when it has another conversion.\<close>

fun fmt_kinds :: "string \<Rightarrow> char list option" where
  "fmt_kinds [] = Some []"
| "fmt_kinds (c # cs) =
     (if c \<noteq> CHR ''%'' then fmt_kinds cs
      else (case cs of
          d # cs' \<Rightarrow>
            if d = CHR ''s'' then map_option ((#) CHR ''s'') (fmt_kinds cs')
            else (case cs' of
                e # cs'' \<Rightarrow>
                  if d = CHR ''l'' \<and> e = CHR ''d'' then map_option ((#) CHR ''d'') (fmt_kinds cs'')
                  else None
              | [] \<Rightarrow> None)
        | [] \<Rightarrow> None))"

primrec arg_kind :: "fmt_arg \<Rightarrow> char" where
  "arg_kind (StrArg s) = CHR ''s''"
| "arg_kind (LongArg i) = CHR ''d''"
| "arg_kind (DoubleArg r) = CHR ''f''"

lemma dec_nat_no_nul: "CHR 0x00 \<notin> set (dec_nat n)"
proof (induction n rule: dec_nat.induct)
  case (1 n)
  have "CHR 0x00 \<noteq> char_of (48 + k)" if "k < 10" for k :: nat
  proof
    assume "CHR 0x00 = char_of (48 + k)"
    then have "of_char (char_of (48 + k) :: char) = (0 :: nat)" by (simp flip: \<open>CHR 0x00 = char_of (48 + k)\<close>)
    then show False using that by simp
  qed
  then show ?case using 1 by (subst dec_nat.simps) simp
qed

lemma dec_int_no_nul: "CHR 0x00 \<notin> set (dec_int i)"
  by (simp add: dec_int_def dec_nat_no_nul)

lemma c_format_total:
  assumes "fmt_kinds fmt = Some ks" "map arg_kind args = ks" "CHR 0x00 \<notin> set fmt"
  shows "\<exists>s. c_format fmt args = Ok s \<and> CHR 0x00 \<notin> set s"
  using assms
proof (induction fmt arbitrary: ks args rule: fmt_kinds.induct)
  case 1
  then show ?case by simp
next
  case (2 c cs)
  consider (plain) "c \<noteq> CHR ''%''"
    | (str) cs' where "c = CHR ''%''" "cs = CHR ''s'' # cs'"
    | (long) cs' where "c = CHR ''%''" "cs = CHR ''l'' # CHR ''d'' # cs'"
    using 2(4) by (auto split: if_splits list.splits)
  then show ?case
  proof cases
    case plain
    then show ?thesis using 2 by fastforce
  next
    case str
    then obtain a as ks' where "args = StrArg a # as" "fmt_kinds cs' = Some ks'" "map arg_kind as = ks'"
      using 2(4,5) by (cases args rule: list.exhaust; cases "hd args") auto
    then show ?thesis using 2(2) [OF _ str(2)] str 2(6) by (fastforce simp: c_str_no_nul)
  next
    case long
    then obtain a as ks' where "args = LongArg a # as" "fmt_kinds cs' = Some ks'" "map arg_kind as = ks'"
      using 2(4,5) by (cases args rule: list.exhaust; cases "hd args") auto
    then show ?thesis using 2(3) [OF _ long(2) _ refl] long 2(6) by (fastforce simp: dec_int_no_nul)
  qed
qed

lemma c_format_short:
  assumes "fmt_kinds fmt = Some (map arg_kind (args @ more))" "more \<noteq> []"
  shows "c_format fmt args = Throw (Undefined ''vsnprintf'')"
  using assms(1)
proof (induction fmt arbitrary: args rule: fmt_kinds.induct)
  case 1
  then show ?case using assms(2) by simp
next
  case (2 c cs)
  consider (plain) "c \<noteq> CHR ''%''"
    | (str) cs' where "c = CHR ''%''" "cs = CHR ''s'' # cs'"
    | (long) cs' where "c = CHR ''%''" "cs = CHR ''l'' # CHR ''d'' # cs'"
    using 2(4) by (auto split: if_splits list.splits)
  then show ?case
  proof cases
    case plain
    then show ?thesis using 2 by fastforce
  next
    case str
    show ?thesis
    proof (cases args)
      case (Cons a as)
      then show ?thesis using 2(2) [OF _ str(2), of as] str 2(4) by (cases a) auto
    qed (simp add: str)
  next
    case long
    show ?thesis
    proof (cases args)
      case (Cons a as)
      then show ?thesis using 2(3) [OF _ long(2) _ refl, of as] long 2(4) by (cases a) auto
    qed (simp add: long)
  qed
qed

lemma event_what_buffer: "CHR 0x00 \<notin> set s \<Longrightarrow> event_what (event_buffer s) = take 511 s"
proof -
  assume s: "CHR 0x00 \<notin> set s"
  have "takeWhile (\<lambda>c. c \<noteq> CHR 0x00) (take 511 s @ replicate (Suc k) CHR 0x00) = take 511 s" for k
    using s by (subst takeWhile_append2) (auto dest: in_set_takeD)
  moreover have "512 - min 511 (length s) = Suc (511 - min 511 (length s))" by simp
  ultimately show ?thesis unfolding event_what_def event_buffer_def c_str_def by metis
qed

text \<open>The formats of the event table, and what they ask for.\<close>

definition event_kinds :: "string \<Rightarrow> char list option" where
  "event_kinds code = Option.bind (map_of C_MAP_EVENTS code) fmt_kinds"

lemma event_formats_no_nul: "map_of C_MAP_EVENTS code = Some fmt \<Longrightarrow> CHR 0x00 \<notin> set fmt"
proof -
  have "list_all (\<lambda>(_, fmt). CHR 0x00 \<notin> set fmt) C_MAP_EVENTS" by code_simp
  then show "map_of C_MAP_EVENTS code = Some fmt \<Longrightarrow> CHR 0x00 \<notin> set fmt"
    using map_of_SomeD by (fastforce simp: list_all_iff)
qed

lemma HANDLE_EXCEPTION_EVENT_eq:
  "HANDLE_EXCEPTION_EVENT code taskid args =
     (case map_of C_MAP_EVENTS code of
        None \<Rightarrow> Throw OutOfRange
      | Some fmt \<Rightarrow> res_bind (c_format fmt args) (\<lambda>s. Throw (EventException (event_buffer s))))"
  by (simp add: HANDLE_EXCEPTION_EVENT_def HANDLE_EXCEPTION_EVENT_va_def split: option.split)

text \<open>
  C18. What reporting a failure throws, for every behaviour \<open>va\<close> of the \<open>va_start\<close> that names a
  local variable. For a code of the table and arguments of the kinds its message asks for: when
  \<open>va_start\<close> does list the arguments passed, the call throws an \<open>EventException\<close> with a buffer of
  512 characters, whose \<open>what()\<close> is the formatted message cut to 511 characters; when it lists
  fewer arguments than the message asks for or is itself undefined, the call has no defined
  behaviour. A code that is not in the table is \<open>out_of_range\<close> before any of it.
\<close>

theorem event_thrown:
  assumes "event_kinds code = Some (map arg_kind args)"
  shows "(va args = Ok args \<longrightarrow>
      (\<exists>fmt s m. map_of C_MAP_EVENTS code = Some fmt \<and> c_format fmt args = Ok s \<and>
        HANDLE_EXCEPTION_EVENT_va va code taskid args = Throw (EventException m) \<and>
        length m = 512 \<and> event_what m = take 511 s)) \<and>
    (\<forall>n. va args = Ok (take n args) \<and> n < length args \<longrightarrow>
      HANDLE_EXCEPTION_EVENT_va va code taskid args = Throw (Undefined ''vsnprintf'')) \<and>
    (\<forall>e. va args = Throw (Undefined e) \<longrightarrow>
      HANDLE_EXCEPTION_EVENT_va va code taskid args = Throw (Undefined e)) \<and>
    (\<forall>other. other \<notin> set (map fst C_MAP_EVENTS) \<longrightarrow>
      HANDLE_EXCEPTION_EVENT_va va other taskid args = Throw OutOfRange)"
proof -
  obtain fmt where fmt: "map_of C_MAP_EVENTS code = Some fmt" "fmt_kinds fmt = Some (map arg_kind args)"
    using assms by (auto simp: event_kinds_def bind_eq_Some_conv)
  obtain s where s: "c_format fmt args = Ok s" "CHR 0x00 \<notin> set s"
    using c_format_total [OF fmt(2) refl event_formats_no_nul [OF fmt(1)]] by blast
  have len: "length (event_buffer s) = 512" by (simp add: event_buffer_def)
  have short: "c_format fmt (take n args) = Throw (Undefined ''vsnprintf'')" if "n < length args" for n
    using c_format_short [of fmt "take n args" "drop n args"] fmt(2) that by simp
  show ?thesis
    using fmt s len short
    by (auto simp: HANDLE_EXCEPTION_EVENT_va_def event_what_buffer map_of_eq_None_iff [THEN iffD2])
qed

theorem event_thrown_witness:
  "\<exists>fmt s m. map_of C_MAP_EVENTS ''0402009'' = Some fmt \<and>
    c_format fmt [StrArg ''a'', StrArg ''b'', LongArg 5000] = Ok s \<and>
    HANDLE_EXCEPTION_EVENT_va Ok ''0402009'' ''t'' [StrArg ''a'', StrArg ''b'', LongArg 5000]
      = Throw (EventException m) \<and> length m = 512 \<and> event_what m = take 511 s \<and>
    HANDLE_EXCEPTION_EVENT_va (\<lambda>_. Ok []) ''0402009'' ''t'' [StrArg ''a'', StrArg ''b'', LongArg 5000]
      = (Throw (Undefined ''vsnprintf'') :: unit res)"
proof -
  have k: "event_kinds ''0402009'' = Some (map arg_kind [StrArg ''a'', StrArg ''b'', LongArg 5000])"
    by code_simp
  have "HANDLE_EXCEPTION_EVENT_va (\<lambda>_. Ok []) ''0402009'' ''t'' [StrArg ''a'', StrArg ''b'', LongArg 5000]
      = (Throw (Undefined ''vsnprintf'') :: unit res)"
    using event_thrown [OF k, of "\<lambda>_. Ok []" "''t''"] by (auto dest: spec [where x = 0])
  then show ?thesis using event_thrown [OF k, of Ok "''t''"] by blast
qed

text \<open>What each code asks for, as the call sites use it.\<close>

lemma event_kinds_table:
  "event_kinds C_EVENT_CODE_PARSE_FILE = Some []"
  "event_kinds C_EVENT_CODE_NO_FIND_NID = Some ''s''"
  "event_kinds C_EVENT_CODE_NO_PUBLIC_IP = Some ''s''"
  "event_kinds C_EVENT_CODE_NO_GLACIER2 = Some ''s''"
  "event_kinds C_EVENT_CODE_NO_ICEGRID = Some ''s''"
  "event_kinds C_EVENT_CODE_INVALID_CERT = Some ''s''"
  "event_kinds C_EVENT_CODE_START_SERVICE = Some ''ss''"
  "event_kinds C_EVENT_CODE_CREATE_CLIENT = Some ''ss''"
  "event_kinds C_EVENT_CODE_INVALID_PROXY = Some ''s''"
  "event_kinds C_EVENT_CODE_CONNECT_TIMEOUT = Some ''ssd''"
  "event_kinds C_EVENT_CODE_SEND_DATA_TIMEOUT = Some ''ssd''"
  "event_kinds C_EVENT_CODE_RECV_DATA_TIMEOUT = Some ''ssd''"
  "event_kinds C_EVENT_CODE_NEITHER_CLIENT_SERVER = Some ''s''"
  by code_simp+

text \<open>The messages with their arguments in place, for the codes that properties name.\<close>

lemma send_timeout_event:
  "HANDLE_EXCEPTION_EVENT C_EVENT_CODE_SEND_DATA_TIMEOUT taskid [StrArg a, StrArg b, LongArg t] =
    Throw (EventException (event_buffer (''Self nodeid:'' @ c_str a @ '' send data to nodeid:'' @ c_str b @
      '' timeout, The timeout period is: '' @ dec_int t @ ''ms, send data failed!'')))"
  by (simp add: HANDLE_EXCEPTION_EVENT_eq C_MAP_EVENTS_def event_codes)

lemma connect_timeout_event:
  "HANDLE_EXCEPTION_EVENT C_EVENT_CODE_CONNECT_TIMEOUT taskid [StrArg a, StrArg b, LongArg t] =
    Throw (EventException (event_buffer (c_str a @ '' connect to remote nodeid:'' @ c_str b @
      '' timeout, The timeout period is:'' @ dec_int t @ ''ms, create io channel failed!'')))"
  by (simp add: HANDLE_EXCEPTION_EVENT_eq C_MAP_EVENTS_def event_codes)

lemma no_find_nid_event:
  "HANDLE_EXCEPTION_EVENT C_EVENT_CODE_NO_FIND_NID taskid [StrArg a] =
    Throw (EventException (event_buffer (''No found NodeID:'' @ c_str a @ '', get node info failed!'')))"
  by (simp add: HANDLE_EXCEPTION_EVENT_eq C_MAP_EVENTS_def event_codes)

text \<open>An outcome that is an \<open>EventException\<close>.\<close>

definition is_event :: "'a res \<Rightarrow> bool" where
  "is_event r = (case r of Throw (EventException _) \<Rightarrow> True | _ \<Rightarrow> False)"

lemma is_event_handle:
  "event_kinds code = Some (map arg_kind args) \<Longrightarrow> is_event (HANDLE_EXCEPTION_EVENT code taskid args)"
proof -
  assume "event_kinds code = Some (map arg_kind args)"
  then obtain fmt where fmt: "map_of C_MAP_EVENTS code = Some fmt" "fmt_kinds fmt = Some (map arg_kind args)"
    by (auto simp: event_kinds_def bind_eq_Some_conv)
  obtain s where "c_format fmt args = Ok s"
    using c_format_total [OF fmt(2) refl event_formats_no_nul [OF fmt(1)]] by blast
  then show ?thesis by (simp add: is_event_def HANDLE_EXCEPTION_EVENT_eq fmt(1))
qed

lemma is_event_not_Ok: "is_event r \<Longrightarrow> r \<noteq> Ok x" "is_event r \<Longrightarrow> r \<noteq> Blocks"
  by (auto simp: is_event_def)

lemma is_event_bind [intro]: "is_event r \<Longrightarrow> is_event (res_bind r f)"
  by (cases r) (auto simp: is_event_def)

text \<open>The filter.\<close>

lemma c_str_map: "(\<And>c. f c = CHR 0x00 \<longleftrightarrow> c = CHR 0x00) \<Longrightarrow> c_str (map f s) = map f (c_str s)"
  by (simp add: c_str_def takeWhile_map comp_def)

lemma FilterIllChar_eq:
  "FilterIllChar s = map (\<lambda>c. if c \<in> set C_Illegal_Strings then CHR ''_'' else c) (c_str s)"
  unfolding FilterIllChar_def by (rule c_str_map) (auto simp: C_Illegal_Strings_def)

lemma FilterIllChar_legal: "set (FilterIllChar s) \<inter> set C_Illegal_Strings = {}"
  by (auto simp: FilterIllChar_eq C_Illegal_Strings_def)

lemma FilterIllChar_no_nul: "CHR 0x00 \<notin> set (FilterIllChar s)"
  unfolding FilterIllChar_def by (rule c_str_no_nul)

lemma FilterIllChar_id:
  "set s \<inter> set C_Illegal_Strings = {} \<Longrightarrow> CHR 0x00 \<notin> set s \<Longrightarrow> FilterIllChar s = s"
  by (auto simp: FilterIllChar_eq c_str_id intro!: map_idI)

text \<open>
  The filter makes identities legal: its result has no separator of Ice's proxy syntax and
  no zero character, it is as long as the C string it was made from, it keeps every legal
  character in place, and filtering again changes nothing.
\<close>

lemma FilterIllChar_spec:
  "set (FilterIllChar s) \<inter> {CHR '':'', CHR ''@'', CHR ''/'', CHR 0x00} = {} \<and>
   length (FilterIllChar s) = length (c_str s) \<and>
   (\<forall>i. i < length (c_str s) \<longrightarrow>
     FilterIllChar s ! i = (if s ! i \<in> {CHR '':'', CHR ''@'', CHR ''/''} then CHR ''_'' else s ! i)) \<and>
   FilterIllChar (FilterIllChar s) = FilterIllChar s"
proof -
  have "s ! i = c_str s ! i" if "i < length (c_str s)" for i
    using that by (simp add: c_str_def takeWhile_nth)
  then show ?thesis
    using FilterIllChar_legal [of s] FilterIllChar_no_nul [of s]
    by (simp add: FilterIllChar_id) (auto simp: FilterIllChar_eq C_Illegal_Strings_def)
qed

lemma FilterIllChar_spec_example:
  "length (FilterIllChar ''a:b@c'') = 5 \<and> FilterIllChar ''a:b@c'' ! 1 = CHR ''_''"
  using FilterIllChar_spec [of "''a:b@c''"] by (simp add: c_str_def)

end
