(* ===== verification/Config.thy ===== *)
theory Config
  imports Json Std_Containers Events
begin

text \<open>
  \<^verbatim>\<open>core/include/config.h\<close> and \<^verbatim>\<open>core/src/config.cc\<close>: the configuration of a task, read from a JSON
  document or file. \<open>gm\<close> is the build option \<open>SSL_TYPE == 2\<close>, which adds the sign and encryption
  certificates; without it their fields stay empty. The file system and the JSON parser are
  parameters of \<open>load\<close>.
\<close>

section \<open>Data\<close>

record Node =
  DESC :: string
  NODE_ID :: string
  NAME :: string
  ADDRESS :: string
  PUBLIC_IP :: string
  VIA :: string
  GRICER2 :: string
  ICEGRID :: string
  CERT_DIR :: string
  CA_CERT_PATH :: string
  SERVER_KEY_PATH :: string
  SERVER_CERT_PATH :: string
  CLIENT_KEY_PATH :: string
  CLIENT_CERT_PATH :: string
  PASSWORD :: string
  SERVER_SIGN_KEY_PATH :: string
  SERVER_SIGN_CERT_PATH :: string
  SERVER_ENC_KEY_PATH :: string
  SERVER_ENC_CERT_PATH :: string
  CLIENT_SIGN_KEY_PATH :: string
  CLIENT_SIGN_CERT_PATH :: string
  CLIENT_ENC_KEY_PATH :: string
  CLIENT_ENC_CERT_PATH :: string

definition Node_new :: Node where
  "Node_new = \<lparr>DESC = [], NODE_ID = [], NAME = [], ADDRESS = [], PUBLIC_IP = [], VIA = [], GRICER2 = [],
     ICEGRID = [], CERT_DIR = [], CA_CERT_PATH = [], SERVER_KEY_PATH = [], SERVER_CERT_PATH = [],
     CLIENT_KEY_PATH = [], CLIENT_CERT_PATH = [], PASSWORD = [], SERVER_SIGN_KEY_PATH = [],
     SERVER_SIGN_CERT_PATH = [], SERVER_ENC_KEY_PATH = [], SERVER_ENC_CERT_PATH = [],
     CLIENT_SIGN_KEY_PATH = [], CLIENT_SIGN_CERT_PATH = [], CLIENT_ENC_KEY_PATH = [],
     CLIENT_ENC_CERT_PATH = []\<rparr>"

definition copy_from :: "bool \<Rightarrow> Node \<Rightarrow> Node \<Rightarrow> Node" where
  "copy_from gm node self =
     (let self = self\<lparr>DESC := DESC node, NODE_ID := NODE_ID node, NAME := NAME node,
            ADDRESS := ADDRESS node, PUBLIC_IP := PUBLIC_IP node, VIA := VIA node,
            GRICER2 := GRICER2 node, ICEGRID := ICEGRID node, CERT_DIR := CERT_DIR node,
            CA_CERT_PATH := CA_CERT_PATH node, SERVER_KEY_PATH := SERVER_KEY_PATH node,
            SERVER_CERT_PATH := SERVER_CERT_PATH node, CLIENT_KEY_PATH := CLIENT_KEY_PATH node,
            CLIENT_CERT_PATH := CLIENT_CERT_PATH node, PASSWORD := PASSWORD node\<rparr> in
      if gm then
        self\<lparr>SERVER_SIGN_KEY_PATH := SERVER_SIGN_KEY_PATH node,
            SERVER_SIGN_CERT_PATH := SERVER_SIGN_CERT_PATH node,
            SERVER_ENC_KEY_PATH := SERVER_ENC_KEY_PATH node,
            SERVER_ENC_CERT_PATH := SERVER_ENC_CERT_PATH node,
            CLIENT_SIGN_KEY_PATH := CLIENT_SIGN_KEY_PATH node,
            CLIENT_SIGN_CERT_PATH := CLIENT_SIGN_CERT_PATH node,
            CLIENT_ENC_KEY_PATH := CLIENT_ENC_KEY_PATH node,
            CLIENT_ENC_CERT_PATH := CLIENT_ENC_CERT_PATH node\<rparr>
      else self)"

record IcePlugCfg =
  AppName :: string
  Ip :: string
  Port :: string

definition IcePlugCfg_new :: IcePlugCfg where
  "IcePlugCfg_new = \<lparr>AppName = [], Ip = [], Port = []\<rparr>"

definition plug_GetInfo :: "IcePlugCfg \<Rightarrow> string" where
  "plug_GetInfo p = ''AppName:'' @ AppName p @ '', Address:'' @ Ip p @ '':'' @ Port p"

record NodeInfo =
  ni_id :: string
  ni_address :: string
  ni_public_ip :: string
  ni_via_address :: string
  ni_glacier2_info :: IcePlugCfg
  ni_ice_grid_info :: IcePlugCfg
  ni_ca_cert_path :: string
  ni_cert_dir :: string
  ni_server_key_path :: string
  ni_server_cert_path :: string
  ni_client_key_path :: string
  ni_client_cert_path :: string
  ni_password :: string
  ni_server_sign_key_path :: string
  ni_server_sign_cert_path :: string
  ni_server_enc_key_path :: string
  ni_server_enc_cert_path :: string
  ni_client_sign_key_path :: string
  ni_client_sign_cert_path :: string
  ni_client_enc_key_path :: string
  ni_client_enc_cert_path :: string

record ViaInfo =
  vi_id :: string
  vi_via_address :: string
  vi_via :: string
  vi_glacier2_info :: IcePlugCfg
  vi_server_cert_path :: string
  vi_ca_cert_path :: string
  vi_cert_dir :: string
  vi_client_key_path :: string
  vi_client_cert_path :: string
  vi_password :: string
  vi_client_sign_key_path :: string
  vi_client_sign_cert_path :: string
  vi_client_enc_key_path :: string
  vi_client_enc_cert_path :: string

definition ViaInfo_new :: ViaInfo where
  "ViaInfo_new = \<lparr>vi_id = [], vi_via_address = [], vi_via = [], vi_glacier2_info = IcePlugCfg_new,
     vi_server_cert_path = [], vi_ca_cert_path = [], vi_cert_dir = [], vi_client_key_path = [],
     vi_client_cert_path = [], vi_password = [], vi_client_sign_key_path = [],
     vi_client_sign_cert_path = [], vi_client_enc_key_path = [], vi_client_enc_cert_path = []\<rparr>"

datatype NODE_TYPE = NODE_TYPE_INVALID | NODE_TYPE_DATA | NODE_TYPE_COMPUTE | NODE_TYPE_RESULT

record ChannelConfig =
  cfg_node_id :: string
  cfg_task_id :: string
  root_cert :: string
  log_level :: int
  ping_time :: rat
  send_timeout :: rat
  conn_timeout :: rat
  conn_sync :: bool
  buffer_size :: int
  node_info_config :: "(string \<times> Node) list"
  nodeid_to_via :: "(string \<times> string) list"
  via_to_address :: "(string \<times> string) list"
  nodeid_to_glacier2 :: "(string \<times> string) list"
  nodeid_to_icegrid :: "(string \<times> string) list"
  glacier2_to_info :: "(string \<times> IcePlugCfg) list"
  icegrid_to_info :: "(string \<times> IcePlugCfg) list"
  data_nodes :: "string list"
  compute_nodes :: "(string \<times> int) list"
  result_nodes :: "string list"
  task_nodes :: "string list"
  data_config :: "Node list"
  compute_config :: "Node list"
  result_config :: "Node list"
  policy_type :: string
  map_policy :: "(string \<times> string list) list"

definition ChannelConfig_new :: ChannelConfig where
  "ChannelConfig_new = \<lparr>cfg_node_id = [], cfg_task_id = [], root_cert = [], log_level = 0, ping_time = 1,
     send_timeout = 5, conn_timeout = 5, conn_sync = False, buffer_size = 1024 * 8,
     node_info_config = [], nodeid_to_via = [], via_to_address = [], nodeid_to_glacier2 = [],
     nodeid_to_icegrid = [], glacier2_to_info = [], icegrid_to_info = [], data_nodes = [],
     compute_nodes = [], result_nodes = [], task_nodes = [], data_config = [], compute_config = [],
     result_config = [], policy_type = [], map_policy = []\<rparr>"

section \<open>Reading the document\<close>

text \<open>\<open>if (doc.HasMember(key) && doc[key].Is...()) { ... }\<close>.\<close>

definition when_member ::
    "string \<Rightarrow> (json \<Rightarrow> bool) \<Rightarrow> json \<Rightarrow> (json \<Rightarrow> 's \<Rightarrow> 's res) \<Rightarrow> 's \<Rightarrow> 's res" where
  "when_member key P doc f s =
     res_bind (HasMember key doc) (\<lambda>has.
     if \<not> has then Ok s
     else res_bind (json_index key doc) (\<lambda>v. if P v then f v s else Ok s))"

definition json_elems :: "json \<Rightarrow> json list res" where
  "json_elems v = (case v of JArray xs \<Rightarrow> Ok xs | _ \<Rightarrow> rj_assert)"

definition json_members :: "json \<Rightarrow> (string \<times> json) list res" where
  "json_members v = (case v of JObject ms \<Rightarrow> Ok ms | _ \<Rightarrow> rj_assert)"

text \<open>The string members of an entry of \<open>NODE_INFO\<close>: key, default, field.\<close>

definition node_fields :: "bool \<Rightarrow> (string \<times> string \<times> ((string \<Rightarrow> string) \<Rightarrow> Node \<Rightarrow> Node)) list" where
  "node_fields gm =
    [(''NODE_ID'', '''', NODE_ID_update), (''ADDRESS'', '''', ADDRESS_update),
     (''PUBLIC_IP'', ''127.0.0.1'', PUBLIC_IP_update), (''VIA'', '''', VIA_update),
     (''GRICER2'', '''', GRICER2_update), (''ICEGRID'', '''', ICEGRID_update),
     (''CERT_DIR'', '''', CERT_DIR_update),
     (''SERVER_KEY'', '''', SERVER_KEY_PATH_update), (''SERVER_CERT'', '''', SERVER_CERT_PATH_update),
     (''CLIENT_KEY'', '''', CLIENT_KEY_PATH_update), (''CLIENT_CERT'', '''', CLIENT_CERT_PATH_update),
     (''PASSWORD'', '''', PASSWORD_update)] @
    (if gm then
      [(''SERVER_SIGN_KEY'', '''', SERVER_SIGN_KEY_PATH_update),
       (''SERVER_SIGN_CERT'', '''', SERVER_SIGN_CERT_PATH_update),
       (''SERVER_ENC_KEY'', '''', SERVER_ENC_KEY_PATH_update),
       (''SERVER_ENC_CERT'', '''', SERVER_ENC_CERT_PATH_update),
       (''CLIENT_SIGN_KEY'', '''', CLIENT_SIGN_KEY_PATH_update),
       (''CLIENT_SIGN_CERT'', '''', CLIENT_SIGN_CERT_PATH_update),
       (''CLIENT_ENC_KEY'', '''', CLIENT_ENC_KEY_PATH_update),
       (''CLIENT_ENC_CERT'', '''', CLIENT_ENC_CERT_PATH_update)]
     else [])"

definition read_field ::
    "json \<Rightarrow> string \<times> string \<times> ((string \<Rightarrow> string) \<Rightarrow> Node \<Rightarrow> Node) \<Rightarrow> Node \<Rightarrow> Node res" where
  "read_field v f n =
     (case f of (key, d, upd) \<Rightarrow> res_bind (GetString v key d False) (\<lambda>s. Ok (upd (\<lambda>_. s) n)))"

definition parse_node :: "bool \<Rightarrow> string \<Rightarrow> json \<Rightarrow> Node res" where
  "parse_node gm ca_cert v =
     res_fold (read_field v) (node_fields gm) (Node_new\<lparr>CA_CERT_PATH := ca_cert\<rparr>)"

text \<open>One turn of the loop over \<open>NODE_INFO\<close>: lines 212-249.\<close>

definition add_node :: "bool \<Rightarrow> string \<Rightarrow> json \<Rightarrow> ChannelConfig \<Rightarrow> ChannelConfig res" where
  "add_node gm ca_cert v cfg =
     res_bind (parse_node gm ca_cert v) (\<lambda>n.
     Ok (cfg\<lparr>node_info_config := map_insert (NODE_ID n) n (node_info_config cfg),
             nodeid_to_via := map_insert (NODE_ID n) (VIA n) (nodeid_to_via cfg),
             nodeid_to_glacier2 := map_insert (NODE_ID n) (GRICER2 n) (nodeid_to_glacier2 cfg),
             nodeid_to_icegrid := map_insert (NODE_ID n) (ICEGRID n) (nodeid_to_icegrid cfg)\<rparr>))"

definition parse_vias :: "json \<Rightarrow> ChannelConfig \<Rightarrow> ChannelConfig res" where
  "parse_vias v cfg =
     res_bind (json_members v) (\<lambda>ms.
     res_fold (\<lambda>(n, w) cfg.
       res_bind (json_string w) (\<lambda>value.
       Ok (cfg\<lparr>via_to_address := map_insert (c_str n) value (via_to_address cfg)\<rparr>))) ms cfg)"

text \<open>An \<open>IcePlugCfg\<close> from the members of an object: lines 272-286 and 300-314.\<close>

definition parse_plug :: "json \<Rightarrow> IcePlugCfg res" where
  "parse_plug v =
     res_bind (json_members v) (\<lambda>ms.
     res_fold (\<lambda>(n, w) p.
       res_bind (json_string w) (\<lambda>value.
       Ok (if c_str n = ''APPNAME'' then p\<lparr>AppName := value\<rparr>
           else if c_str n = ''IP'' then p\<lparr>Ip := value\<rparr>
           else if c_str n = ''PORT'' then p\<lparr>Port := value\<rparr>
           else p))) ms IcePlugCfg_new)"

definition parse_plugs ::
    "json \<Rightarrow> (string \<times> IcePlugCfg) list \<Rightarrow> (string \<times> IcePlugCfg) list res" where
  "parse_plugs v m =
     res_bind (json_members v) (\<lambda>ms.
     res_fold (\<lambda>(n, _) m.
       res_bind (json_index (c_str n) v) (\<lambda>w.
       if is_object w then
         res_bind (parse_plug w) (\<lambda>p. Ok (map_insert (c_str n) p m))
       else Ok m)) ms m)"

definition parse_node_info :: "bool \<Rightarrow> json \<Rightarrow> ChannelConfig \<Rightarrow> ChannelConfig res" where
  "parse_node_info gm doc =
     when_member ''NODE_INFO'' is_array doc (\<lambda>nodes cfg.
     res_bind (GetString doc ''ROOT_CERT'' (root_cert cfg) False) (\<lambda>ca_cert.
     res_bind (json_elems nodes) (\<lambda>ns.
     res_bind (res_fold (add_node gm ca_cert) ns cfg) (\<lambda>cfg.
     res_bind (when_member ''VIA_INFO'' is_object doc parse_vias cfg) (\<lambda>cfg.
     res_bind (when_member ''GRICER2_INFO'' is_object doc (\<lambda>v cfg.
         res_bind (parse_plugs v (glacier2_to_info cfg)) (\<lambda>m. Ok (cfg\<lparr>glacier2_to_info := m\<rparr>))) cfg) (\<lambda>cfg.
     when_member ''ICE_GRID_INFO'' is_object doc (\<lambda>v cfg.
         res_bind (parse_plugs v (icegrid_to_info cfg)) (\<lambda>m. Ok (cfg\<lparr>icegrid_to_info := m\<rparr>))) cfg))))))"

text \<open>\<open>v.resize(n)\<close>.\<close>

definition vec_resize :: "nat \<Rightarrow> 'a \<Rightarrow> 'a list \<Rightarrow> 'a list" where
  "vec_resize n d xs = take n xs @ replicate (n - length xs) d"

text \<open>
  What the three loops over participating nodes do with a node identifier: its information, or
  the event; and its entry in the set of task nodes.
\<close>

definition task_node :: "bool \<Rightarrow> string \<Rightarrow> Node \<Rightarrow> ChannelConfig \<Rightarrow> (Node \<times> ChannelConfig) res" where
  "task_node gm nid slot cfg =
     (case map_of (node_info_config cfg) nid of
        None \<Rightarrow> HANDLE_EXCEPTION_EVENT C_EVENT_CODE_NO_FIND_NID (cfg_task_id cfg) [StrArg nid]
      | Some n \<Rightarrow>
          Ok (copy_from gm n slot,
              if nid \<in> set (task_nodes cfg) then cfg
              else cfg\<lparr>task_nodes := set_insert nid (task_nodes cfg)\<rparr>))"

definition data_turn :: "bool \<Rightarrow> nat \<times> json \<Rightarrow> ChannelConfig \<Rightarrow> ChannelConfig res" where
  "data_turn gm e cfg =
     (case e of (i, v) \<Rightarrow>
      res_bind (json_string v) (\<lambda>nid.
      res_bind (task_node gm nid (data_config cfg ! i) cfg) (\<lambda>(n, cfg).
      Ok (cfg\<lparr>data_nodes := (data_nodes cfg)[i := nid], data_config := (data_config cfg)[i := n]\<rparr>))))"

definition parse_data :: "bool \<Rightarrow> json \<Rightarrow> ChannelConfig \<Rightarrow> ChannelConfig res" where
  "parse_data gm doc =
     when_member ''DATA_NODES'' is_array doc (\<lambda>nodes cfg.
     res_bind (json_elems nodes) (\<lambda>ns.
     res_fold (data_turn gm) (enumerate 0 ns)
       (cfg\<lparr>data_nodes := vec_resize (length ns) [] (data_nodes cfg),
            data_config := vec_resize (length ns) Node_new (data_config cfg)\<rparr>)))"

definition party_of :: "string \<Rightarrow> int" where
  "party_of value =
     (if value = ''P0'' then 0 else if value = ''P1'' then 1 else if value = ''P2'' then 2 else - 1)"

definition add_party :: "string \<times> json \<Rightarrow> ChannelConfig \<Rightarrow> ChannelConfig res" where
  "add_party e cfg =
     (case e of (n, v) \<Rightarrow>
      res_bind (json_string v) (\<lambda>value.
      Ok (cfg\<lparr>compute_nodes := map_insert (c_str n) (party_of value) (compute_nodes cfg)\<rparr>)))"

definition compute_turn :: "bool \<Rightarrow> nat \<times> string \<times> int \<Rightarrow> ChannelConfig \<Rightarrow> ChannelConfig res" where
  "compute_turn gm e cfg =
     (case e of (i, nid, _) \<Rightarrow>
      res_bind (task_node gm nid (compute_config cfg ! i) cfg) (\<lambda>(n, cfg).
      Ok (cfg\<lparr>compute_config := (compute_config cfg)[i := n]\<rparr>)))"

definition parse_compute :: "bool \<Rightarrow> json \<Rightarrow> ChannelConfig \<Rightarrow> ChannelConfig res" where
  "parse_compute gm doc =
     when_member ''COMPUTATION_NODES'' is_object doc (\<lambda>nodes cfg.
     res_bind (json_members nodes) (\<lambda>ms.
     res_bind (res_fold add_party ms cfg) (\<lambda>cfg.
     res_fold (compute_turn gm) (enumerate 0 (compute_nodes cfg))
       (cfg\<lparr>compute_config := vec_resize (length (compute_nodes cfg)) Node_new (compute_config cfg)\<rparr>))))"

definition result_turn :: "bool \<Rightarrow> nat \<times> json \<Rightarrow> ChannelConfig \<Rightarrow> ChannelConfig res" where
  "result_turn gm e cfg =
     (case e of (i, v) \<Rightarrow>
      res_bind (json_string v) (\<lambda>nid.
      res_bind (task_node gm nid (result_config cfg ! i) cfg) (\<lambda>(n, cfg).
      Ok (cfg\<lparr>result_nodes := (result_nodes cfg)[i := nid], result_config := (result_config cfg)[i := n]\<rparr>))))"

definition parse_result :: "bool \<Rightarrow> json \<Rightarrow> ChannelConfig \<Rightarrow> ChannelConfig res" where
  "parse_result gm doc =
     when_member ''RESULT_NODES'' is_array doc (\<lambda>nodes cfg.
     res_bind (json_elems nodes) (\<lambda>ns.
     res_fold (result_turn gm) (enumerate 0 ns)
       (cfg\<lparr>result_nodes := vec_resize (length ns) [] (result_nodes cfg),
            result_config := vec_resize (length ns) Node_new (result_config cfg)\<rparr>)))"

definition policy_entry :: "json \<Rightarrow> string \<Rightarrow> string list res" where
  "policy_entry dict nodeid =
     res_bind (json_index nodeid dict) (\<lambda>w.
     if is_array w then
       res_bind (json_elems w) (\<lambda>ns.
       res_fold (\<lambda>v s. res_bind (json_string v) (\<lambda>t. Ok (set_insert t s))) ns [])
     else Ok [])"

definition add_policy :: "json \<Rightarrow> string \<times> json \<Rightarrow> ChannelConfig \<Rightarrow> ChannelConfig res" where
  "add_policy dict e cfg =
     (case e of (n, _) \<Rightarrow>
      res_bind (policy_entry dict (c_str n)) (\<lambda>s.
      Ok (cfg\<lparr>map_policy := map_insert (c_str n) s (map_policy cfg)\<rparr>)))"

definition parse_policy :: "json \<Rightarrow> ChannelConfig \<Rightarrow> ChannelConfig res" where
  "parse_policy doc cfg =
     res_bind (HasMember ''POLICY'' doc) (\<lambda>has.
     if \<not> has then Ok cfg
     else res_bind (json_index ''POLICY'' doc) (\<lambda>dict.
       if is_string dict then
         res_bind (GetString doc ''POLICY'' ''all'' False) (\<lambda>s. Ok (cfg\<lparr>policy_type := s\<rparr>))
       else if is_object dict then
         res_bind (json_members dict) (\<lambda>ms.
         res_fold (add_policy dict) ms cfg)
       else Ok cfg))"

text \<open>The scalar members, and the order of the parts. Every part returns true when it returns.\<close>

definition parse_scalars :: "json \<Rightarrow> ChannelConfig \<Rightarrow> ChannelConfig res" where
  "parse_scalars doc cfg =
     res_bind (GetString doc ''TASK_ID'' '''' False) (\<lambda>task.
     res_bind (GetString doc ''ROOT_CERT'' '''' False) (\<lambda>root.
     res_bind (GetInt doc ''LOG_LEVEL'' 2 False) (\<lambda>level.
     res_bind (GetInt doc ''BUFFER_SIZE'' (8 * 1024) False) (\<lambda>size.
     res_bind (GetFloat doc ''PING_TIME'' 1 False) (\<lambda>ping.
     res_bind (GetFloat doc ''SEND_TIMEOUT'' 5 False) (\<lambda>send.
     res_bind (GetFloat doc ''CONNECT_TIMEOUT'' 5 False) (\<lambda>conn.
     res_bind (GetBool doc ''CONNECT_SYNC'' False False) (\<lambda>sync.
     Ok (cfg\<lparr>cfg_task_id := task, root_cert := root,
             log_level := (if 2 < to_u8 level then 2 else to_u8 level), buffer_size := size,
             ping_time := ping, send_timeout := send, conn_timeout := conn, conn_sync := sync\<rparr>)))))))))"

definition cfg_parse :: "bool \<Rightarrow> json \<Rightarrow> ChannelConfig \<Rightarrow> ChannelConfig res" where
  "cfg_parse gm doc cfg =
     res_bind (parse_scalars doc cfg) (\<lambda>cfg.
     res_bind (parse_node_info gm doc cfg) (\<lambda>cfg.
     res_bind (parse_data gm doc cfg) (\<lambda>cfg.
     res_bind (parse_compute gm doc cfg) (\<lambda>cfg.
     res_bind (parse_result gm doc cfg) (\<lambda>cfg.
     parse_policy doc cfg)))))"

text \<open>
  \<open>load\<close>: the argument names a file, read without its line ends, or is the document itself.
  \<open>None\<close> stands for the return value false.
\<close>

definition cfg_load ::
    "(string \<Rightarrow> string option) \<Rightarrow> (string \<Rightarrow> json option) \<Rightarrow> bool \<Rightarrow> string \<Rightarrow> string \<Rightarrow> ChannelConfig
     \<Rightarrow> ChannelConfig option res" where
  "cfg_load file_content parser gm node_id config_file cfg =
     (let cfg = cfg\<lparr>cfg_node_id := node_id\<rparr>;
          sjson = (case file_content config_file of
                     None \<Rightarrow> config_file
                   | Some s \<Rightarrow> filter (\<lambda>c. c \<noteq> CHR 0x0A) s) in
      case parser (c_str sjson) of
        None \<Rightarrow> Ok None
      | Some doc \<Rightarrow> res_bind (cfg_parse gm doc cfg) (\<lambda>cfg. Ok (Some cfg)))"

definition ChannelConfig_of ::
    "(string \<Rightarrow> string option) \<Rightarrow> (string \<Rightarrow> json option) \<Rightarrow> bool \<Rightarrow> string \<Rightarrow> string
     \<Rightarrow> ChannelConfig res" where
  "ChannelConfig_of file_content parser gm node_id config_json =
     res_bind (cfg_load file_content parser gm node_id config_json ChannelConfig_new) (\<lambda>r.
     case r of
       None \<Rightarrow> HANDLE_EXCEPTION_EVENT C_EVENT_CODE_PARSE_FILE '''' []
     | Some cfg \<Rightarrow> Ok (cfg\<lparr>cfg_node_id := node_id\<rparr>))"

section \<open>Invariant of a loaded configuration\<close>

text \<open>
  The declared nodes: every map is in key order, the four maps filled from \<open>NODE_INFO\<close> have the
  same keys, and a node is filed under its own identifier.
\<close>

definition nodes_wf :: "ChannelConfig \<Rightarrow> bool" where
  "nodes_wf cfg \<longleftrightarrow>
     ordered_by fst (node_info_config cfg) \<and> ordered_by fst (nodeid_to_via cfg) \<and>
     ordered_by fst (nodeid_to_glacier2 cfg) \<and> ordered_by fst (nodeid_to_icegrid cfg) \<and>
     (\<forall>(k, n) \<in> set (node_info_config cfg). NODE_ID n = k) \<and>
     fst ` set (nodeid_to_via cfg) = fst ` set (node_info_config cfg) \<and>
     fst ` set (nodeid_to_glacier2 cfg) = fst ` set (node_info_config cfg) \<and>
     fst ` set (nodeid_to_icegrid cfg) = fst ` set (node_info_config cfg)"

text \<open>
  The participants: the lists of node information match the lists of identifiers, the set of
  task nodes is exactly the identifiers of the three roles, and all of them are declared.
\<close>

definition roles_wf :: "ChannelConfig \<Rightarrow> bool" where
  "roles_wf cfg \<longleftrightarrow>
     map NODE_ID (data_config cfg) = data_nodes cfg \<and>
     map NODE_ID (compute_config cfg) = map fst (compute_nodes cfg) \<and>
     map NODE_ID (result_config cfg) = result_nodes cfg \<and>
     ordered_by fst (compute_nodes cfg) \<and> ordered_by (\<lambda>x. x) (task_nodes cfg) \<and>
     set (task_nodes cfg) = set (data_nodes cfg) \<union> fst ` set (compute_nodes cfg) \<union> set (result_nodes cfg) \<and>
     set (task_nodes cfg) \<subseteq> fst ` set (node_info_config cfg)"

definition cfg_wf :: "ChannelConfig \<Rightarrow> bool" where
  "cfg_wf cfg \<longleftrightarrow> nodes_wf cfg \<and> roles_wf cfg \<and> ordered_by fst (map_policy cfg) \<and>
     (\<forall>(_, s) \<in> set (map_policy cfg). ordered_by (\<lambda>x. x) s) \<and>
     0 \<le> log_level cfg \<and> log_level cfg \<le> 2"

lemma when_member_Ok:
  assumes "when_member key P doc f s = Ok t"
  shows "t = s \<or> (\<exists>v. json_index key doc = Ok v \<and> P v \<and> f v s = Ok t)"
  using assms by (auto simp: when_member_def res_bind_Ok_iff split: if_splits)

lemma when_member_inv:
  assumes "when_member key P doc f s = Ok t" "Q s" "\<And>v t. f v s = Ok t \<Longrightarrow> Q t"
  shows "Q t"
  using when_member_Ok [OF assms(1)] assms(2,3) by blast

lemma res_fold_enumerate:
  assumes "res_fold f (enumerate k xs) s = Ok t" "Q k s"
    "\<And>i x s s'. k \<le> i \<Longrightarrow> i < k + length xs \<Longrightarrow> x = xs ! (i - k) \<Longrightarrow> Q i s \<Longrightarrow> f (i, x) s = Ok s' \<Longrightarrow> Q (Suc i) s'"
  shows "Q (k + length xs) t"
  using assms
proof (induction xs arbitrary: k s)
  case (Cons x xs)
  obtain s1 where s1: "f (k, x) s = Ok s1" "res_fold f (enumerate (Suc k) xs) s1 = Ok t"
    using Cons.prems(1) by (auto simp: res_bind_Ok_iff)
  have "Q (Suc k + length xs) t"
  proof (rule Cons.IH [OF s1(2)])
    show "Q (Suc k) s1" by (rule Cons.prems(3) [of k x s s1]) (use Cons.prems(2) s1(1) in auto)
    show "Q (Suc i) s'" if "Suc k \<le> i" "i < Suc k + length xs" "y = xs ! (i - Suc k)" "Q i s" "f (i, y) s = Ok s'"
      for i y s s'
      by (rule Cons.prems(3) [of i y s s']) (use that in \<open>auto simp: nth_Cons'\<close>)
  qed
  then show ?case by simp
qed simp

lemma nodes_wf_new: "nodes_wf ChannelConfig_new"
  by (simp add: nodes_wf_def ChannelConfig_new_def)

lemma map_insert_set:
  "ordered_by fst m \<Longrightarrow> set (map_insert k v m) = (if k \<in> fst ` set m then set m else insert (k, v) (set m))"
  by (simp add: map_insert_def set_insert_by_set)

lemma map_insert_keys [simp]:
  "ordered_by fst m \<Longrightarrow> fst ` set (map_insert k v m) = insert k (fst ` set m)"
  by (auto simp: map_insert_set)

lemma add_node_wf: "add_node gm ca v cfg = Ok cfg' \<Longrightarrow> nodes_wf cfg \<Longrightarrow> nodes_wf cfg'"
proof -
  assume a: "add_node gm ca v cfg = Ok cfg'" and w: "nodes_wf cfg"
  have "\<forall>(k, m) \<in> set (map_insert (NODE_ID n) n (node_info_config cfg)). NODE_ID m = k" for n
    using w by (auto simp: nodes_wf_def map_insert_set split: if_splits)
  then show "nodes_wf cfg'"
    using a w by (auto simp only: add_node_def res_bind_Ok_iff res.inject)
      (simp add: nodes_wf_def map_insert_ordered)
qed

text \<open>Which part of the configuration each part of the document fills.\<close>

definition roles_cleared :: "ChannelConfig \<Rightarrow> bool" where
  "roles_cleared cfg \<longleftrightarrow> data_nodes cfg = [] \<and> compute_nodes cfg = [] \<and> result_nodes cfg = [] \<and>
     task_nodes cfg = [] \<and> data_config cfg = [] \<and> compute_config cfg = [] \<and> result_config cfg = [] \<and>
     map_policy cfg = [] \<and> 0 \<le> log_level cfg \<and> log_level cfg \<le> 2"

lemma add_node_roles: "add_node gm ca v cfg = Ok cfg' \<Longrightarrow> roles_cleared cfg \<Longrightarrow> roles_cleared cfg'"
  by (auto simp: add_node_def res_bind_Ok_iff roles_cleared_def)

lemma parse_vias_frame: "parse_vias v cfg = Ok cfg' \<Longrightarrow> \<exists>m. cfg' = cfg\<lparr>via_to_address := m\<rparr>"
proof -
  have "\<exists>m. cfg' = cfg\<lparr>via_to_address := m\<rparr>"
    if "res_fold (\<lambda>(n, w) cfg. res_bind (json_string w) (\<lambda>value.
        Ok (cfg\<lparr>via_to_address := map_insert (c_str n) value (via_to_address cfg)\<rparr>))) ms cfg = Ok cfg'" for ms
    using that
  proof (induction ms arbitrary: cfg)
    case Nil
    then show ?case by (auto intro: exI [of _ "via_to_address cfg'"])
  next
    case (Cons e ms)
    then show ?case by (fastforce simp: res_bind_Ok_iff split: prod.splits)
  qed
  then show "parse_vias v cfg = Ok cfg' \<Longrightarrow> \<exists>m. cfg' = cfg\<lparr>via_to_address := m\<rparr>"
    by (auto simp: parse_vias_def res_bind_Ok_iff)
qed

lemma parse_node_info_wf:
  assumes "parse_node_info gm doc cfg = Ok cfg'" "nodes_wf cfg" "roles_cleared cfg"
  shows "nodes_wf cfg' \<and> roles_cleared cfg'"
  using assms(1) unfolding parse_node_info_def
proof (rule when_member_inv)
  show "nodes_wf cfg \<and> roles_cleared cfg" using assms by simp
next
  fix v t
  assume "res_bind (GetString doc ''ROOT_CERT'' (root_cert cfg) False) (\<lambda>ca_cert.
     res_bind (json_elems v) (\<lambda>ns.
     res_bind (res_fold (add_node gm ca_cert) ns cfg) (\<lambda>cfg.
     res_bind (when_member ''VIA_INFO'' is_object doc parse_vias cfg) (\<lambda>cfg.
     res_bind (when_member ''GRICER2_INFO'' is_object doc (\<lambda>v cfg.
         res_bind (parse_plugs v (glacier2_to_info cfg)) (\<lambda>m. Ok (cfg\<lparr>glacier2_to_info := m\<rparr>))) cfg) (\<lambda>cfg.
     when_member ''ICE_GRID_INFO'' is_object doc (\<lambda>v cfg.
         res_bind (parse_plugs v (icegrid_to_info cfg)) (\<lambda>m. Ok (cfg\<lparr>icegrid_to_info := m\<rparr>))) cfg))))) = Ok t"
  then obtain ca ns c1 c2 c3 where
    1: "res_fold (add_node gm ca) ns cfg = Ok c1" and
    2: "when_member ''VIA_INFO'' is_object doc parse_vias c1 = Ok c2" and
    3: "when_member ''GRICER2_INFO'' is_object doc (\<lambda>v cfg.
         res_bind (parse_plugs v (glacier2_to_info cfg)) (\<lambda>m. Ok (cfg\<lparr>glacier2_to_info := m\<rparr>))) c2 = Ok c3" and
    4: "when_member ''ICE_GRID_INFO'' is_object doc (\<lambda>v cfg.
         res_bind (parse_plugs v (icegrid_to_info cfg)) (\<lambda>m. Ok (cfg\<lparr>icegrid_to_info := m\<rparr>))) c3 = Ok t"
    by (auto simp: res_bind_Ok_iff)
  have "nodes_wf c1 \<and> roles_cleared c1"
    by (rule res_fold_inv [OF 1]) (use assms add_node_wf add_node_roles in blast)+
  moreover have "\<exists>m. c2 = c1\<lparr>via_to_address := m\<rparr>"
    using when_member_Ok [OF 2] parse_vias_frame by (metis ChannelConfig.surjective ChannelConfig.update_convs(12))
  moreover have "\<exists>m. c3 = c2\<lparr>glacier2_to_info := m\<rparr>"
    by (rule when_member_inv [OF 3]) (auto simp: res_bind_Ok_iff intro: exI [of _ "glacier2_to_info c2"])
  moreover have "\<exists>m. t = c3\<lparr>icegrid_to_info := m\<rparr>"
    by (rule when_member_inv [OF 4]) (auto simp: res_bind_Ok_iff intro: exI [of _ "icegrid_to_info c3"])
  ultimately show "nodes_wf t \<and> roles_cleared t"
    by (elim exE) (simp add: nodes_wf_def roles_cleared_def)
qed

lemma parse_scalars_wf:
  assumes "parse_scalars doc cfg = Ok cfg'" "nodes_wf cfg" "roles_cleared cfg"
  shows "nodes_wf cfg' \<and> roles_cleared cfg' \<and> cfg_node_id cfg' = cfg_node_id cfg"
proof -
  obtain a b l d e f g h where "cfg' = cfg\<lparr>cfg_task_id := a, root_cert := b,
      log_level := (if 2 < to_u8 l then 2 else to_u8 l), buffer_size := d,
      ping_time := e, send_timeout := f, conn_timeout := g, conn_sync := h\<rparr>"
    using assms(1) unfolding parse_scalars_def res_bind_Ok_iff by blast
  moreover have "0 \<le> to_u8 l" by (simp add: to_u8_def)
  ultimately show ?thesis using assms(2,3) by (simp add: nodes_wf_def roles_cleared_def)
qed

text \<open>The participants.\<close>

lemma set_insert_present: "ordered_by (\<lambda>x. x) xs \<Longrightarrow> x \<in> set xs \<Longrightarrow> set_insert x xs = xs"
  by (induction xs) auto

lemma copy_from_id: "NODE_ID (copy_from gm n slot) = NODE_ID n"
  by (simp add: copy_from_def Let_def)

lemma task_node_cases:
  assumes "nodes_wf cfg" "ordered_by (\<lambda>x. x) (task_nodes cfg)"
  shows "nid \<in> fst ` set (node_info_config cfg) \<Longrightarrow> \<exists>n. task_node gm nid slot cfg =
      Ok (n, cfg\<lparr>task_nodes := set_insert nid (task_nodes cfg)\<rparr>) \<and> NODE_ID n = nid"
    "nid \<notin> fst ` set (node_info_config cfg) \<Longrightarrow> is_event (task_node gm nid slot cfg)"
proof -
  assume "nid \<in> fst ` set (node_info_config cfg)"
  then obtain n where n: "map_of (node_info_config cfg) nid = Some n"
    by (metis map_of_eq_None_iff option.exhaust)
  then have "NODE_ID n = nid" using assms(1) map_of_SomeD [OF n] by (auto simp: nodes_wf_def)
  then show "\<exists>n. task_node gm nid slot cfg =
      Ok (n, cfg\<lparr>task_nodes := set_insert nid (task_nodes cfg)\<rparr>) \<and> NODE_ID n = nid"
    using assms(2) by (simp add: task_node_def n copy_from_id set_insert_present)
next
  assume "nid \<notin> fst ` set (node_info_config cfg)"
  then have "map_of (node_info_config cfg) nid = None" by (simp add: map_of_eq_None_iff)
  moreover have "is_event (HANDLE_EXCEPTION_EVENT C_EVENT_CODE_NO_FIND_NID (cfg_task_id cfg) [StrArg nid] :: (Node \<times> ChannelConfig) res)"
    by (rule is_event_handle) (simp add: event_kinds_table)
  ultimately show "is_event (task_node gm nid slot cfg)" by (simp add: task_node_def)
qed

lemma task_node_Ok:
  assumes "task_node gm nid slot cfg = Ok (n, cfg')" "nodes_wf cfg" "ordered_by (\<lambda>x. x) (task_nodes cfg)"
  shows "nid \<in> fst ` set (node_info_config cfg)" "NODE_ID n = nid"
    "cfg' = cfg\<lparr>task_nodes := set_insert nid (task_nodes cfg)\<rparr>"
  using task_node_cases [OF assms(2,3), of nid gm slot] assms(1)
  by (cases "nid \<in> fst ` set (node_info_config cfg)"; auto simp: is_event_def)+

text \<open>
  The state of a loop over participants after \<open>i\<close> of them: \<open>ids\<close> and \<open>infos\<close> are the vectors it
  fills, \<open>tasks\<close> the set, \<open>old\<close> what the set held before.
\<close>

definition loop_state ::
    "string set \<Rightarrow> string set \<Rightarrow> nat \<Rightarrow> nat \<Rightarrow> string list \<Rightarrow> Node list \<Rightarrow> string list \<Rightarrow> bool" where
  "loop_state keys old N i ids infos tasks \<longleftrightarrow> length ids = N \<and> length infos = N \<and>
     (\<forall>j < i. NODE_ID (infos ! j) = ids ! j) \<and> ordered_by (\<lambda>x. x) tasks \<and>
     set tasks = old \<union> set (take i ids) \<and> set (take i ids) \<subseteq> keys"

lemma loop_state_step:
  assumes "loop_state keys old N i ids infos tasks" "i < N" "NODE_ID n = nid" "nid \<in> keys"
  shows "loop_state keys old N (Suc i) (ids[i := nid]) (infos[i := n]) (set_insert nid tasks)"
  using assms
  by (auto simp: loop_state_def nth_list_update take_Suc_conv_app_nth set_insert_by_ordered less_Suc_eq)

lemma loop_state_fixed:
  assumes "loop_state keys old N i ids infos tasks" "i < N" "NODE_ID n = ids ! i" "ids ! i \<in> keys"
  shows "loop_state keys old N (Suc i) ids (infos[i := n]) (set_insert (ids ! i) tasks)"
  using loop_state_step [OF assms(1,2), of n "ids ! i"] assms by simp

lemma loop_state_end:
  assumes "loop_state keys old N N ids infos tasks"
  shows "map NODE_ID infos = ids" "set tasks = old \<union> set ids" "set ids \<subseteq> keys" "ordered_by (\<lambda>x. x) tasks"
  using assms by (auto simp: loop_state_def intro: nth_equalityI)

lemma loop_state_start:
  "ordered_by (\<lambda>x. x) tasks \<Longrightarrow> length ids = N \<Longrightarrow> length infos = N \<Longrightarrow>
   loop_state keys (set tasks) N 0 ids infos tasks"
  by (simp add: loop_state_def)

lemma length_vec_resize [simp]: "length (vec_resize n d xs) = n"
  by (simp add: vec_resize_def)

abbreviation declared :: "ChannelConfig \<Rightarrow> string set" where
  "declared cfg \<equiv> fst ` set (node_info_config cfg)"

lemma nodes_wf_frames [simp]:
  "nodes_wf (cfg\<lparr>task_nodes := ts\<rparr>) = nodes_wf cfg"
  "nodes_wf (cfg\<lparr>data_nodes := ds\<rparr>) = nodes_wf cfg" "nodes_wf (cfg\<lparr>data_config := dc\<rparr>) = nodes_wf cfg"
  "nodes_wf (cfg\<lparr>result_nodes := ds\<rparr>) = nodes_wf cfg" "nodes_wf (cfg\<lparr>result_config := dc\<rparr>) = nodes_wf cfg"
  "nodes_wf (cfg\<lparr>compute_nodes := cs\<rparr>) = nodes_wf cfg" "nodes_wf (cfg\<lparr>compute_config := dc\<rparr>) = nodes_wf cfg"
  by (simp_all add: nodes_wf_def)

text \<open>
  The contract of such a loop: \<open>put\<close> is the configuration with the two vectors and the set in
  place, \<open>name_of\<close> reads the identifier of an element, and a step looks the node up and stores it.
\<close>

locale role_loop =
  fixes put :: "ChannelConfig \<Rightarrow> string list \<Rightarrow> Node list \<Rightarrow> string list \<Rightarrow> ChannelConfig"
    and name_of :: "'e \<Rightarrow> string res"
    and step :: "bool \<Rightarrow> nat \<times> 'e \<Rightarrow> ChannelConfig \<Rightarrow> ChannelConfig res"
  assumes put_wf: "nodes_wf (put cfg a b c) = nodes_wf cfg"
    and put_tasks: "task_nodes (put cfg a b c) = c"
    and put_info: "node_info_config (put cfg a b c) = node_info_config cfg"
    and step_law: "step gm (i, e) (put cfg a b c) =
      res_bind (name_of e) (\<lambda>nid. res_bind (task_node gm nid (b ! i) (put cfg a b c)) (\<lambda>(n, s).
      Ok (put cfg (a[i := nid]) (b[i := n]) (task_nodes s))))"
begin

lemma step_cases:
  assumes "nodes_wf cfg" "ordered_by (\<lambda>x. x) c" "name_of e = Ok nid"
  shows "nid \<in> declared cfg \<Longrightarrow> \<exists>n. NODE_ID n = nid \<and>
      step gm (i, e) (put cfg a b c) = Ok (put cfg (a[i := nid]) (b[i := n]) (set_insert nid c))"
    "nid \<notin> declared cfg \<Longrightarrow> is_event (step gm (i, e) (put cfg a b c))"
proof -
  have w: "nodes_wf (put cfg a b c)" "ordered_by (\<lambda>x. x) (task_nodes (put cfg a b c))"
    using assms(1,2) by (simp_all add: put_wf put_tasks)
  show "\<exists>n. NODE_ID n = nid \<and>
      step gm (i, e) (put cfg a b c) = Ok (put cfg (a[i := nid]) (b[i := n]) (set_insert nid c))"
    if "nid \<in> declared cfg"
    using task_node_cases(1) [OF w, of nid gm "b ! i"] that assms(3)
    by (auto simp: step_law put_info put_tasks)
  show "is_event (step gm (i, e) (put cfg a b c))" if "nid \<notin> declared cfg"
    using task_node_cases(2) [OF w, of nid gm "b ! i"] that assms(3)
    by (cases "task_node gm nid (b ! i) (put cfg a b c)") (auto simp: step_law put_info is_event_def)
qed

lemma step_Ok:
  assumes "step gm (i, e) (put cfg a b c) = Ok t" "nodes_wf cfg" "ordered_by (\<lambda>x. x) c"
  obtains nid n where "name_of e = Ok nid" "nid \<in> declared cfg" "NODE_ID n = nid"
    "t = put cfg (a[i := nid]) (b[i := n]) (set_insert nid c)"
proof -
  obtain nid where nid: "name_of e = Ok nid" using assms(1) by (auto simp: step_law res_bind_Ok_iff)
  then have "nid \<in> declared cfg"
    using step_cases(2) [OF assms(2,3) nid, of gm i a b] assms(1) by (auto simp: is_event_def)
  then show thesis using step_cases(1) [OF assms(2,3) nid, of gm i a b] nid assms(1) that by auto
qed

lemma loop_Ok:
  assumes "res_fold (step gm) (enumerate 0 ns) (put cfg a b c) = Ok t"
    "nodes_wf cfg" "ordered_by (\<lambda>x. x) c" "length a = length ns" "length b = length ns"
  shows "\<exists>ids infos tasks. t = put cfg ids infos tasks \<and> map Ok ids = map name_of ns \<and>
    loop_state (declared cfg) (set c) (length ns) (length ns) ids infos tasks"
proof -
  let ?P = "\<lambda>i t. \<exists>ids infos tasks. t = put cfg ids infos tasks \<and>
      (\<forall>j < i. Ok (ids ! j) = name_of (ns ! j)) \<and> loop_state (declared cfg) (set c) (length ns) i ids infos tasks"
  have "?P (0 + length ns) t"
  proof (rule res_fold_enumerate [OF assms(1)])
    have "loop_state (declared cfg) (set c) (length ns) 0 a b c"
      using assms(3-5) by (intro loop_state_start) auto
    then show "?P 0 (put cfg a b c)" by blast
  next
    fix i x s s'
    assume i: "i < 0 + length ns" "x = ns ! (i - 0)" and "?P i s" and st: "step gm (i, x) s = Ok s'"
    then obtain ids infos tasks where s: "s = put cfg ids infos tasks"
        and nm: "\<forall>j < i. Ok (ids ! j) = name_of (ns ! j)"
        and l: "loop_state (declared cfg) (set c) (length ns) i ids infos tasks" by blast
    have o: "ordered_by (\<lambda>x. x) tasks" "length ids = length ns" using l by (simp_all add: loop_state_def)
    obtain nid n where k: "name_of x = Ok nid" "nid \<in> declared cfg" "NODE_ID n = nid"
        "s' = put cfg (ids[i := nid]) (infos[i := n]) (set_insert nid tasks)"
      using step_Ok [OF st [unfolded s] assms(2) o(1)] .
    have "loop_state (declared cfg) (set c) (length ns) (Suc i) (ids[i := nid]) (infos[i := n]) (set_insert nid tasks)"
      using loop_state_step [OF l _ k(3,2)] i by simp
    moreover have "\<forall>j < Suc i. Ok (ids[i := nid] ! j) = name_of (ns ! j)"
      using nm k(1) i o(2) by (auto simp: nth_list_update less_Suc_eq)
    ultimately show "?P (Suc i) s'" using k(4) by blast
  qed
  then obtain ids infos tasks where r: "t = put cfg ids infos tasks"
      "\<forall>j < length ns. Ok (ids ! j) = name_of (ns ! j)"
      "loop_state (declared cfg) (set c) (length ns) (length ns) ids infos tasks"
    by auto
  moreover have "map Ok ids = map name_of ns"
    using r(2,3) by (intro nth_equalityI) (auto simp: loop_state_def)
  ultimately show ?thesis by blast
qed

text \<open>The loop succeeds when every name is declared, and reports the event otherwise.\<close>

lemma loop_outcome:
  assumes "nodes_wf cfg" "ordered_by (\<lambda>x. x) c" "map name_of ns = map Ok ids"
  shows "set ids \<subseteq> declared cfg \<Longrightarrow> \<exists>t. res_fold (step gm) (enumerate k ns) (put cfg a b c) = Ok t"
    "\<not> set ids \<subseteq> declared cfg \<Longrightarrow> is_event (res_fold (step gm) (enumerate k ns) (put cfg a b c))"
proof -
  have "(set ids \<subseteq> declared cfg \<longrightarrow> (\<exists>t. res_fold (step gm) (enumerate k ns) (put cfg a b c) = Ok t)) \<and>
    (\<not> set ids \<subseteq> declared cfg \<longrightarrow> is_event (res_fold (step gm) (enumerate k ns) (put cfg a b c)))"
    using assms(2,3)
  proof (induction ns arbitrary: ids k a b c)
    case (Cons e ns)
    then obtain nid ids' where ids: "ids = nid # ids'" "name_of e = Ok nid" "map name_of ns = map Ok ids'"
      by (cases ids) auto
    show ?case
    proof (cases "nid \<in> declared cfg")
      case True
      then obtain n where "step gm (k, e) (put cfg a b c) = Ok (put cfg (a[k := nid]) (b[k := n]) (set_insert nid c))"
        using step_cases(1) [OF assms(1) Cons.prems(1) ids(2)] by blast
      then show ?thesis
        using Cons.IH [OF set_insert_by_ordered [OF Cons.prems(1)] ids(3)] True by (simp add: ids(1))
    next
      case False
      then show ?thesis
        using step_cases(2) [OF assms(1) Cons.prems(1) ids(2), of gm k a b]
        by (cases "step gm (k, e) (put cfg a b c)") (auto simp: ids(1) is_event_def)
    qed
  qed simp
  then show "set ids \<subseteq> declared cfg \<Longrightarrow> \<exists>t. res_fold (step gm) (enumerate k ns) (put cfg a b c) = Ok t"
    "\<not> set ids \<subseteq> declared cfg \<Longrightarrow> is_event (res_fold (step gm) (enumerate k ns) (put cfg a b c))"
    by blast+
qed

end

lemma res_bind_cong: "(\<And>x. r = Ok x \<Longrightarrow> f x = g x) \<Longrightarrow> res_bind r f = res_bind r g"
  by (cases r) simp_all

lemma handle_not_Ok [simp]: "HANDLE_EXCEPTION_EVENT code taskid args \<noteq> Ok x"
  by (auto simp: HANDLE_EXCEPTION_EVENT_eq res_bind_Ok_iff split: option.split)

lemma task_node_frame: "task_node gm nid slot cfg = Ok (n, s) \<Longrightarrow> \<exists>ts. s = cfg\<lparr>task_nodes := ts\<rparr>"
  by (auto simp: task_node_def split: option.splits if_splits intro: exI [of _ "task_nodes cfg"])

interpretation dl: role_loop
  "\<lambda>cfg a b c. cfg\<lparr>data_nodes := a, data_config := b, task_nodes := c\<rparr>" json_string data_turn
  by unfold_locales (auto simp: data_turn_def dest!: task_node_frame intro!: res_bind_cong)

interpretation rl: role_loop
  "\<lambda>cfg a b c. cfg\<lparr>result_nodes := a, result_config := b, task_nodes := c\<rparr>" json_string result_turn
  by unfold_locales (auto simp: result_turn_def dest!: task_node_frame intro!: res_bind_cong)

interpretation cl: role_loop
  "\<lambda>cfg a b c. cfg\<lparr>compute_config := b, task_nodes := c\<rparr>" "\<lambda>(nid, _). Ok nid" compute_turn
  by unfold_locales (auto simp: compute_turn_def dest!: task_node_frame intro!: res_bind_cong)

text \<open>Each role keeps the invariant and touches only its own fields and the set of task nodes.\<close>

lemma parse_data_wf:
  assumes "parse_data gm doc cfg = Ok cfg'" "nodes_wf cfg" "roles_wf cfg" "data_nodes cfg = []"
  shows "nodes_wf cfg' \<and> roles_wf cfg' \<and>
    (\<exists>a b c. cfg' = cfg\<lparr>data_nodes := a, data_config := b, task_nodes := c\<rparr>)"
  using assms(1) unfolding parse_data_def
proof (rule when_member_inv)
  show "nodes_wf cfg \<and> roles_wf cfg \<and> (\<exists>a b c. cfg = cfg\<lparr>data_nodes := a, data_config := b, task_nodes := c\<rparr>)"
    using assms(2,3)
    by (intro conjI exI [of _ "data_nodes cfg"] exI [of _ "data_config cfg"] exI [of _ "task_nodes cfg"]) simp_all
next
  fix v t
  assume "res_bind (json_elems v) (\<lambda>ns. res_fold (data_turn gm) (enumerate 0 ns)
       (cfg\<lparr>data_nodes := vec_resize (length ns) [] (data_nodes cfg),
            data_config := vec_resize (length ns) Node_new (data_config cfg)\<rparr>)) = Ok t"
  then obtain ns where f: "res_fold (data_turn gm) (enumerate 0 ns)
       (cfg\<lparr>data_nodes := vec_resize (length ns) [] (data_nodes cfg),
            data_config := vec_resize (length ns) Node_new (data_config cfg), task_nodes := task_nodes cfg\<rparr>) = Ok t"
    by (auto simp: res_bind_Ok_iff)
  obtain ids infos tasks where t: "t = cfg\<lparr>data_nodes := ids, data_config := infos, task_nodes := tasks\<rparr>"
      and l: "loop_state (declared cfg) (set (task_nodes cfg)) (length ns) (length ns) ids infos tasks"
    using dl.loop_Ok [OF f assms(2)] assms(3) by (auto simp: roles_wf_def)
  show "nodes_wf t \<and> roles_wf t \<and> (\<exists>a b c. t = cfg\<lparr>data_nodes := a, data_config := b, task_nodes := c\<rparr>)"
    using assms(2-4) loop_state_end [OF l] by (auto simp: t roles_wf_def)
qed

lemma parse_result_wf:
  assumes "parse_result gm doc cfg = Ok cfg'" "nodes_wf cfg" "roles_wf cfg" "result_nodes cfg = []"
  shows "nodes_wf cfg' \<and> roles_wf cfg' \<and>
    (\<exists>a b c. cfg' = cfg\<lparr>result_nodes := a, result_config := b, task_nodes := c\<rparr>)"
  using assms(1) unfolding parse_result_def
proof (rule when_member_inv)
  show "nodes_wf cfg \<and> roles_wf cfg \<and> (\<exists>a b c. cfg = cfg\<lparr>result_nodes := a, result_config := b, task_nodes := c\<rparr>)"
    using assms(2,3)
    by (intro conjI exI [of _ "result_nodes cfg"] exI [of _ "result_config cfg"] exI [of _ "task_nodes cfg"]) simp_all
next
  fix v t
  assume "res_bind (json_elems v) (\<lambda>ns. res_fold (result_turn gm) (enumerate 0 ns)
       (cfg\<lparr>result_nodes := vec_resize (length ns) [] (result_nodes cfg),
            result_config := vec_resize (length ns) Node_new (result_config cfg)\<rparr>)) = Ok t"
  then obtain ns where f: "res_fold (result_turn gm) (enumerate 0 ns)
       (cfg\<lparr>result_nodes := vec_resize (length ns) [] (result_nodes cfg),
            result_config := vec_resize (length ns) Node_new (result_config cfg), task_nodes := task_nodes cfg\<rparr>) = Ok t"
    by (auto simp: res_bind_Ok_iff)
  obtain ids infos tasks where t: "t = cfg\<lparr>result_nodes := ids, result_config := infos, task_nodes := tasks\<rparr>"
      and l: "loop_state (declared cfg) (set (task_nodes cfg)) (length ns) (length ns) ids infos tasks"
    using rl.loop_Ok [OF f assms(2)] assms(3) by (auto simp: roles_wf_def)
  show "nodes_wf t \<and> roles_wf t \<and> (\<exists>a b c. t = cfg\<lparr>result_nodes := a, result_config := b, task_nodes := c\<rparr>)"
    using assms(2-4) loop_state_end [OF l] by (auto simp: t roles_wf_def)
qed

lemma add_parties:
  assumes "res_fold add_party ms cfg = Ok cfg'" "ordered_by fst (compute_nodes cfg)"
  shows "\<exists>m. cfg' = cfg\<lparr>compute_nodes := m\<rparr> \<and> ordered_by fst m"
  using assms
proof (induction ms arbitrary: cfg)
  case Nil
  then show ?case by (auto intro: exI [of _ "compute_nodes cfg'"])
next
  case (Cons e ms)
  obtain n v where e: "e = (n, v)" by force
  obtain c1 where c1: "add_party (n, v) cfg = Ok c1" "res_fold add_party ms c1 = Ok cfg'"
    using Cons.prems(1) by (auto simp: res_bind_Ok_iff e)
  then show ?case
    using Cons.IH [OF c1(2)] Cons.prems(2) by (auto simp: add_party_def res_bind_Ok_iff map_insert_ordered)
qed

lemma parse_compute_wf:
  assumes "parse_compute gm doc cfg = Ok cfg'" "nodes_wf cfg" "roles_wf cfg" "compute_nodes cfg = []"
  shows "nodes_wf cfg' \<and> roles_wf cfg' \<and>
    (\<exists>a b c. cfg' = cfg\<lparr>compute_nodes := a, compute_config := b, task_nodes := c\<rparr>)"
  using assms(1) unfolding parse_compute_def
proof (rule when_member_inv)
  show "nodes_wf cfg \<and> roles_wf cfg \<and> (\<exists>a b c. cfg = cfg\<lparr>compute_nodes := a, compute_config := b, task_nodes := c\<rparr>)"
    using assms(2,3)
    by (intro conjI exI [of _ "compute_nodes cfg"] exI [of _ "compute_config cfg"] exI [of _ "task_nodes cfg"]) simp_all
next
  fix v t
  assume "res_bind (json_members v) (\<lambda>ms. res_bind (res_fold add_party ms cfg) (\<lambda>cfg.
     res_fold (compute_turn gm) (enumerate 0 (compute_nodes cfg))
       (cfg\<lparr>compute_config := vec_resize (length (compute_nodes cfg)) Node_new (compute_config cfg)\<rparr>))) = Ok t"
  then obtain ms c1 where p: "res_fold add_party ms cfg = Ok c1" and f: "res_fold (compute_turn gm) (enumerate 0 (compute_nodes c1))
       (c1\<lparr>compute_config := vec_resize (length (compute_nodes c1)) Node_new (compute_config c1), task_nodes := task_nodes c1\<rparr>) = Ok t"
    by (auto simp: res_bind_Ok_iff)
  obtain m where c1: "c1 = cfg\<lparr>compute_nodes := m\<rparr>" "ordered_by fst m"
    using add_parties [OF p] assms(4) by auto
  obtain ids infos tasks where t: "t = c1\<lparr>compute_config := infos, task_nodes := tasks\<rparr>"
      and ids: "map Ok ids = map (\<lambda>(nid, _). Ok nid) m"
      and l: "loop_state (declared cfg) (set (task_nodes cfg)) (length m) (length m) ids infos tasks"
    using cl.loop_Ok [OF f, where a = "replicate (length m) []"] assms(2,3) by (auto simp: roles_wf_def c1(1))
  have "ids = map fst m"
  proof -
    have "map (\<lambda>(nid, _). Ok nid) m = map Ok (map fst m)" by auto
    then show ?thesis using ids by (metis res.inject inj_map_eq_map injI)
  qed
  then show "nodes_wf t \<and> roles_wf t \<and> (\<exists>a b c. t = cfg\<lparr>compute_nodes := a, compute_config := b, task_nodes := c\<rparr>)"
    using assms(2-4) loop_state_end [OF l] by (auto simp: t roles_wf_def c1)
qed

text \<open>The policy.\<close>

lemma policy_entry_ordered: "policy_entry dict nid = Ok s \<Longrightarrow> ordered_by (\<lambda>x. x) s"
proof -
  have "ordered_by (\<lambda>x. x) s"
    if "res_fold (\<lambda>v s. res_bind (json_string v) (\<lambda>t. Ok (set_insert t s))) ns [] = Ok s" for ns
    by (rule res_fold_inv [OF that]) (auto simp: res_bind_Ok_iff set_insert_by_ordered)
  then show "policy_entry dict nid = Ok s \<Longrightarrow> ordered_by (\<lambda>x. x) s"
    by (auto simp: policy_entry_def res_bind_Ok_iff split: if_splits)
qed

definition policy_wf :: "(string \<times> string list) list \<Rightarrow> bool" where
  "policy_wf p \<longleftrightarrow> ordered_by fst p \<and> (\<forall>(_, s) \<in> set p. ordered_by (\<lambda>x. x) s)"

lemma parse_policy_wf:
  assumes "parse_policy doc cfg = Ok cfg'" "policy_wf (map_policy cfg)"
  shows "\<exists>s p. cfg' = cfg\<lparr>policy_type := s, map_policy := p\<rparr> \<and> policy_wf p"
proof -
  have fold: "\<exists>p. c' = c\<lparr>map_policy := p\<rparr> \<and> policy_wf p"
    if "res_fold (add_policy dict) ms c = Ok c'" "policy_wf (map_policy c)" for dict ms c c'
    using that
  proof (induction ms arbitrary: c)
    case Nil
    then show ?case by (auto intro: exI [of _ "map_policy c'"])
  next
    case (Cons e ms)
    obtain n v where e: "e = (n, v)" by force
    obtain s where s: "policy_entry dict (c_str n) = Ok s"
        and r: "res_fold (add_policy dict) ms (c\<lparr>map_policy := map_insert (c_str n) s (map_policy c)\<rparr>) = Ok c'"
      using Cons.prems(1) by (auto simp: res_bind_Ok_iff e add_policy_def [of dict "(n, v)"])
    have "policy_wf (map_insert (c_str n) s (map_policy c))"
      using Cons.prems(2) policy_entry_ordered [OF s]
      by (auto simp: policy_wf_def map_insert_ordered map_insert_set split: if_splits)
    then show ?case using Cons.IH [OF r] by auto
  qed
  have keep: "\<exists>s' p. c = cfg\<lparr>policy_type := s', map_policy := p\<rparr> \<and> policy_wf p"
    if "c = cfg \<or> (\<exists>s. c = cfg\<lparr>policy_type := s\<rparr>) \<or> (\<exists>p. c = cfg\<lparr>map_policy := p\<rparr> \<and> policy_wf p)" for c
    using that
  proof (elim disjE exE conjE)
    assume "c = cfg"
    then show ?thesis
      using assms(2) by (intro exI [of _ "policy_type cfg"] exI [of _ "map_policy cfg"]) simp
  next
    fix s assume "c = cfg\<lparr>policy_type := s\<rparr>"
    then show ?thesis using assms(2) by (intro exI [of _ s] exI [of _ "map_policy cfg"]) simp
  next
    fix p assume "c = cfg\<lparr>map_policy := p\<rparr>" "policy_wf p"
    then show ?thesis by (intro exI [of _ "policy_type cfg"] exI [of _ p]) simp
  qed
  from assms(1) consider "cfg' = cfg" | s where "cfg' = cfg\<lparr>policy_type := s\<rparr>"
    | dict ms where "res_fold (add_policy dict) ms cfg = Ok cfg'"
    by (auto simp: parse_policy_def res_bind_Ok_iff split: if_splits)
  then have "cfg' = cfg \<or> (\<exists>s. cfg' = cfg\<lparr>policy_type := s\<rparr>) \<or> (\<exists>p. cfg' = cfg\<lparr>map_policy := p\<rparr> \<and> policy_wf p)"
  proof cases
    case 3
    then show ?thesis using fold [OF 3 assms(2)] by simp
  qed (simp, intro disjI2 disjI1 exI)
  then show ?thesis by (rule keep)
qed

lemma wf_policy_frame [simp]:
  "nodes_wf (cfg\<lparr>policy_type := s, map_policy := p\<rparr>) = nodes_wf cfg"
  "roles_wf (cfg\<lparr>policy_type := s, map_policy := p\<rparr>) = roles_wf cfg"
  by (simp_all add: nodes_wf_def roles_wf_def)

lemma cfg_parse_wf:
  assumes "cfg_parse gm doc cfg0 = Ok cfg" "nodes_wf cfg0" "roles_cleared cfg0"
  shows "cfg_wf cfg"
proof -
  from assms(1) obtain c1 c2 c3 c4 c5 where
    1: "parse_scalars doc cfg0 = Ok c1" and 2: "parse_node_info gm doc c1 = Ok c2" and
    3: "parse_data gm doc c2 = Ok c3" and 4: "parse_compute gm doc c3 = Ok c4" and
    5: "parse_result gm doc c4 = Ok c5" and 6: "parse_policy doc c5 = Ok cfg"
    by (auto simp: cfg_parse_def res_bind_Ok_iff)
  have "nodes_wf c2" and r: "roles_cleared c2"
    using parse_scalars_wf [OF 1 assms(2,3)] parse_node_info_wf [OF 2] by auto
  moreover have "roles_wf c2" using r by (simp add: roles_cleared_def roles_wf_def)
  ultimately have d: "nodes_wf c3 \<and> roles_wf c3 \<and> (\<exists>a b c. c3 = c2\<lparr>data_nodes := a, data_config := b, task_nodes := c\<rparr>)"
    using parse_data_wf [OF 3] r by (simp add: roles_cleared_def)
  then have c: "nodes_wf c4 \<and> roles_wf c4 \<and> (\<exists>a b c. c4 = c3\<lparr>compute_nodes := a, compute_config := b, task_nodes := c\<rparr>)"
    using parse_compute_wf [OF 4] r by (auto simp: roles_cleared_def)
  then have e: "nodes_wf c5 \<and> roles_wf c5 \<and> (\<exists>a b c. c5 = c4\<lparr>result_nodes := a, result_config := b, task_nodes := c\<rparr>)"
    using parse_result_wf [OF 5] r d by (auto simp: roles_cleared_def)
  have p: "map_policy c5 = []" "0 \<le> log_level c5" "log_level c5 \<le> 2"
    using r d c e by (auto simp: roles_cleared_def)
  obtain s q where "cfg = c5\<lparr>policy_type := s, map_policy := q\<rparr>" "policy_wf q"
    using parse_policy_wf [OF 6] p(1) by (auto simp: policy_wf_def)
  then show ?thesis
    using e p by (simp add: cfg_wf_def policy_wf_def)
qed

lemma new_wf: "nodes_wf (ChannelConfig_new\<lparr>cfg_node_id := x\<rparr>)" "roles_cleared (ChannelConfig_new\<lparr>cfg_node_id := x\<rparr>)"
  by (simp_all add: nodes_wf_def roles_cleared_def ChannelConfig_new_def)

lemma cfg_wf_node_id [simp]: "cfg_wf (cfg\<lparr>cfg_node_id := x\<rparr>) = cfg_wf cfg"
  by (simp add: cfg_wf_def nodes_wf_def roles_wf_def)

lemma loaded_wf:
  assumes "ChannelConfig_of files parser gm node_id txt = Ok cfg"
  shows "cfg_wf cfg \<and> cfg_node_id cfg = node_id"
proof -
  obtain doc c where "cfg_parse gm doc (ChannelConfig_new\<lparr>cfg_node_id := node_id\<rparr>) = Ok c"
      "cfg = c\<lparr>cfg_node_id := node_id\<rparr>"
    using assms by (auto simp: ChannelConfig_of_def cfg_load_def Let_def res_bind_Ok_iff split: option.splits)
  then show ?thesis using cfg_parse_wf [OF _ new_wf] by auto
qed

text \<open>
  C23. A configuration that loads is consistent, and one that cannot be parsed is reported. Every
  map is in key order and keyed by the nodes' own identifiers; the lists of node information match
  the lists of identifiers; the set of task nodes is exactly the data, computation and result
  nodes; each of them is declared in \<open>NODE_INFO\<close>; and the log level is between 0 and 2 whatever
  number the document has.
\<close>

theorem config_consistent:
  "(\<forall>cfg. ChannelConfig_of files parser gm node_id txt = Ok cfg \<longrightarrow> cfg_wf cfg \<and> cfg_node_id cfg = node_id) \<and>
   (parser (c_str (case files txt of None \<Rightarrow> txt | Some s \<Rightarrow> filter (\<lambda>c. c \<noteq> CHR 0x0A) s)) = None \<longrightarrow>
     is_event (ChannelConfig_of files parser gm node_id txt))"
proof (intro conjI allI impI)
  fix cfg assume "ChannelConfig_of files parser gm node_id txt = Ok cfg"
  then show "cfg_wf cfg" "cfg_node_id cfg = node_id" using loaded_wf by blast+
next
  assume "parser (c_str (case files txt of None \<Rightarrow> txt | Some s \<Rightarrow> filter (\<lambda>c. c \<noteq> CHR 0x0A) s)) = None"
  then have "ChannelConfig_of files parser gm node_id txt = HANDLE_EXCEPTION_EVENT C_EVENT_CODE_PARSE_FILE '''' []"
    by (simp add: ChannelConfig_of_def cfg_load_def Let_def)
  moreover have "is_event (HANDLE_EXCEPTION_EVENT C_EVENT_CODE_PARSE_FILE '''' [] :: ChannelConfig res)"
    by (rule is_event_handle) (simp add: event_kinds_table)
  ultimately show "is_event (ChannelConfig_of files parser gm node_id txt)" by simp
qed

section \<open>Undeclared participants\<close>

text \<open>
  C24. A data or result node is accepted if and only if it is declared. With a list of strings as
  \<open>DATA_NODES\<close> or \<open>RESULT_NODES\<close>, the reader stores exactly those identifiers when all of them
  are declared, and reports \<open>NO_FIND_NID\<close> when one is not.
\<close>

theorem participants_declared:
  assumes "nodes_wf cfg" "ordered_by (\<lambda>x. x) (task_nodes cfg)"
    "map_of ms ''DATA_NODES'' = Some (JArray (map JString ds))"
    "map_of ms ''RESULT_NODES'' = Some (JArray (map JString rs))"
  shows "(if set (map c_str ds) \<subseteq> declared cfg
      then \<exists>cfg'. parse_data gm (JObject ms) cfg = Ok cfg' \<and> data_nodes cfg' = map c_str ds
      else is_event (parse_data gm (JObject ms) cfg)) \<and>
    (if set (map c_str rs) \<subseteq> declared cfg
      then \<exists>cfg'. parse_result gm (JObject ms) cfg = Ok cfg' \<and> result_nodes cfg' = map c_str rs
      else is_event (parse_result gm (JObject ms) cfg))"
proof -
  have names: "map json_string (map JString xs) = map Ok (map c_str xs)" for xs
    by (simp add: json_string_def)
  have D: "parse_data gm (JObject ms) cfg = res_fold (data_turn gm) (enumerate 0 (map JString ds))
      (cfg\<lparr>data_nodes := vec_resize (length ds) [] (data_nodes cfg),
           data_config := vec_resize (length ds) Node_new (data_config cfg), task_nodes := task_nodes cfg\<rparr>)"
    using assms(3) by (simp add: parse_data_def when_member_def HasMember_def FindMember_def json_index_def
        is_array_def json_elems_def)
  have R: "parse_result gm (JObject ms) cfg = res_fold (result_turn gm) (enumerate 0 (map JString rs))
      (cfg\<lparr>result_nodes := vec_resize (length rs) [] (result_nodes cfg),
           result_config := vec_resize (length rs) Node_new (result_config cfg), task_nodes := task_nodes cfg\<rparr>)"
    using assms(4) by (simp add: parse_result_def when_member_def HasMember_def FindMember_def json_index_def
        is_array_def json_elems_def)
  have inj: "map Ok xs = map Ok ys \<Longrightarrow> xs = ys" for xs ys :: "string list"
    by (metis injI inj_map_eq_map res.inject)
  have "data_nodes t = map c_str ds" if "parse_data gm (JObject ms) cfg = Ok t" for t
    using dl.loop_Ok [OF that [unfolded D] assms(1,2)] inj [of _ "map c_str ds"]
    unfolding names by fastforce
  moreover have "result_nodes t = map c_str rs" if "parse_result gm (JObject ms) cfg = Ok t" for t
    using rl.loop_Ok [OF that [unfolded R] assms(1,2)] inj [of _ "map c_str rs"]
    unfolding names by fastforce
  ultimately show ?thesis
    using dl.loop_outcome [OF assms(1,2) names [of ds], of gm 0] rl.loop_outcome [OF assms(1,2) names [of rs], of gm 0]
    unfolding D R by metis
qed

section \<open>Reading does not depend on the reader\<close>

text \<open>
  The document is read without a look at \<open>node_id_\<close>, so all nodes of a task that read the same
  document get the same configuration but for their own identifier.
\<close>

definition id_blind :: "(ChannelConfig \<Rightarrow> 'a) \<Rightarrow> bool" where
  "id_blind r \<longleftrightarrow> (\<forall>x c. r (c\<lparr>cfg_node_id := x\<rparr>) = r c)"

definition id_keeps :: "(ChannelConfig \<Rightarrow> ChannelConfig) \<Rightarrow> bool" where
  "id_keeps g \<longleftrightarrow> (\<forall>x c. g (c\<lparr>cfg_node_id := x\<rparr>) = (g c)\<lparr>cfg_node_id := x\<rparr>)"

definition node_blind :: "(ChannelConfig \<Rightarrow> ChannelConfig res) \<Rightarrow> bool" where
  "node_blind f \<longleftrightarrow> (\<forall>x c. f (c\<lparr>cfg_node_id := x\<rparr>) = res_bind (f c) (\<lambda>c. Ok (c\<lparr>cfg_node_id := x\<rparr>)))"

lemma blind_Ok: "id_keeps g \<Longrightarrow> node_blind (\<lambda>c. Ok (g c))"
  by (simp add: node_blind_def id_keeps_def)

lemma blind_value: "id_blind r \<Longrightarrow> (\<And>v. node_blind (f v)) \<Longrightarrow> node_blind (\<lambda>c. res_bind (r c) (\<lambda>v. f v c))"
  by (simp add: node_blind_def id_blind_def res_bind_assoc)

lemma blind_bind: "node_blind g \<Longrightarrow> node_blind h \<Longrightarrow> node_blind (\<lambda>c. res_bind (g c) h)"
  by (simp add: node_blind_def res_bind_assoc)

lemma blind_if: "node_blind g \<Longrightarrow> node_blind h \<Longrightarrow> node_blind (\<lambda>c. if P then g c else h c)"
  by (simp add: node_blind_def)

lemma blind_fold:
  assumes "\<And>e. node_blind (f e)" "id_blind es" "id_keeps g"
  shows "node_blind (\<lambda>c. res_fold f (es c) (g c))"
proof -
  have "node_blind (res_fold f xs)" for xs
  proof (induction xs)
    case (Cons e xs)
    have "node_blind (\<lambda>c. res_bind (f e c) (res_fold f xs))" by (rule blind_bind) (fact assms(1) Cons.IH)+
    then show ?case by (simp add: node_blind_def)
  qed (simp add: node_blind_def)
  then show ?thesis using assms(2,3) by (simp add: node_blind_def id_blind_def id_keeps_def)
qed

lemma blind_task:
  assumes "id_blind slot" "\<And>n. node_blind (h n)"
  shows "node_blind (\<lambda>c. res_bind (task_node gm nid (slot c) c) (\<lambda>(n, c). h n c))"
proof -
  have "task_node gm nid s (c\<lparr>cfg_node_id := x\<rparr>) = res_bind (task_node gm nid s c) (\<lambda>(n, c). Ok (n, c\<lparr>cfg_node_id := x\<rparr>))" for s c x
    by (auto simp: task_node_def HANDLE_EXCEPTION_EVENT_eq res_bind_assoc split: option.split)
  then show ?thesis
    using assms by (simp add: node_blind_def id_blind_def res_bind_assoc split_beta)
qed

lemma blind_member: "(\<And>v. node_blind (f v)) \<Longrightarrow> node_blind (when_member key P doc f)"
  unfolding when_member_def by (intro blind_value blind_if) (auto simp: id_blind_def node_blind_def)

lemmas blind_defs = id_blind_def id_keeps_def

lemma blind_turns:
  "node_blind (add_node gm ca v)" "node_blind (data_turn gm e)" "node_blind (add_party p)"
  "node_blind (compute_turn gm q)" "node_blind (result_turn gm e)" "node_blind (add_policy dict p)"
proof -
  show "node_blind (add_node gm ca v)"
    unfolding add_node_def by (intro blind_value blind_Ok) (simp_all add: blind_defs)
  have "node_blind (data_turn gm (i, v))" "node_blind (result_turn gm (i, v))" for i v
    unfolding data_turn_def result_turn_def split by (intro blind_value blind_task blind_Ok; simp add: blind_defs)+
  then show "node_blind (data_turn gm e)" "node_blind (result_turn gm e)" by (cases e; simp)+
  have "node_blind (compute_turn gm (i, n, p))" for i n p
    unfolding compute_turn_def split by (intro blind_task blind_Ok) (simp_all add: blind_defs)
  then show "node_blind (compute_turn gm q)" by (cases q) simp
  have "node_blind (add_party (n, v))" "node_blind (add_policy dict (n, v))" for n v
    unfolding add_party_def add_policy_def split by (intro blind_value blind_Ok; simp add: blind_defs)+
  then show "node_blind (add_party p)" "node_blind (add_policy dict p)" by (cases p; simp)+
qed

lemma blind_parse_node_info: "node_blind (parse_node_info gm doc)"
proof -
  have vias: "node_blind (parse_vias v)" for v
    unfolding parse_vias_def
    by (intro blind_value blind_fold) (auto simp: blind_defs intro!: blind_value blind_Ok)
  have g: "node_blind (\<lambda>cfg. res_bind (parse_plugs v (glacier2_to_info cfg)) (\<lambda>m. Ok (cfg\<lparr>glacier2_to_info := m\<rparr>)))" for v
    by (intro blind_value blind_Ok) (simp_all add: blind_defs)
  have i: "node_blind (\<lambda>cfg. res_bind (parse_plugs v (icegrid_to_info cfg)) (\<lambda>m. Ok (cfg\<lparr>icegrid_to_info := m\<rparr>)))" for v
    by (intro blind_value blind_Ok) (simp_all add: blind_defs)
  show ?thesis
    unfolding parse_node_info_def
    by (rule blind_member, rule blind_value, simp add: blind_defs, rule blind_value, simp add: blind_defs)
      (intro blind_bind blind_fold blind_turns blind_member vias g i; simp add: blind_defs)
qed

lemma blind_parts:
  "node_blind (parse_scalars doc)" "node_blind (parse_data gm doc)"
  "node_blind (parse_compute gm doc)" "node_blind (parse_result gm doc)" "node_blind (parse_policy doc)"
proof -
  show "node_blind (parse_scalars doc)"
    unfolding parse_scalars_def by (intro blind_value blind_Ok) (simp_all add: blind_defs)
  show "node_blind (parse_data gm doc)" "node_blind (parse_result gm doc)"
    unfolding parse_data_def parse_result_def by (intro blind_member blind_value blind_fold blind_turns; simp add: blind_defs)+
  show "node_blind (parse_compute gm doc)"
    unfolding parse_compute_def
    by (rule blind_member, rule blind_value, simp add: blind_defs)
      (intro blind_bind blind_fold blind_turns; simp add: blind_defs)
  show "node_blind (parse_policy doc)"
    unfolding parse_policy_def
    by (intro blind_value blind_if blind_fold blind_turns blind_Ok) (simp_all add: blind_defs)
qed

lemma cfg_parse_blind: "node_blind (cfg_parse gm doc)"
  unfolding cfg_parse_def by (intro blind_bind blind_parts blind_parse_node_info)

lemma same_document:
  "ChannelConfig_of files parser gm j txt =
     res_bind (ChannelConfig_of files parser gm i txt) (\<lambda>cfg. Ok (cfg\<lparr>cfg_node_id := j\<rparr>))"
proof -
  have "cfg_parse gm doc (ChannelConfig_new\<lparr>cfg_node_id := x\<rparr>) =
      res_bind (cfg_parse gm doc ChannelConfig_new) (\<lambda>c. Ok (c\<lparr>cfg_node_id := x\<rparr>))" for doc x
    using cfg_parse_blind unfolding node_blind_def by blast
  then show ?thesis
    by (simp add: ChannelConfig_of_def cfg_load_def Let_def res_bind_assoc HANDLE_EXCEPTION_EVENT_eq split: option.split)
qed

section \<open>An example\<close>

text \<open>Three nodes; the first sends data to the second, which computes for the third.\<close>

definition example_nodes :: json where
  "example_nodes = JArray
     [JObject [(''NODE_ID'', JString ''p0''), (''ADDRESS'', JString ''10.0.0.1:8000'')],
      JObject [(''NODE_ID'', JString ''p1''), (''ADDRESS'', JString ''10.0.0.2:8000''), (''GRICER2'', JString ''g'')],
      JObject [(''NODE_ID'', JString ''p2''), (''VIA'', JString ''v'')]]"

definition example_doc :: "json \<Rightarrow> json" where
  "example_doc policy = JObject
     [(''TASK_ID'', JString ''t1''), (''LOG_LEVEL'', JInt 7), (''NODE_INFO'', example_nodes),
      (''DATA_NODES'', JArray [JString ''p0'']), (''COMPUTATION_NODES'', JObject [(''p1'', JString ''P0'')]),
      (''RESULT_NODES'', JArray [JString ''p2'']), (''POLICY'', policy)]"

definition policy_example :: json where
  "policy_example = JObject [(''p0'', JArray [JString ''p1'']), (''p1'', JArray [JString ''p2''])]"

definition example_cfg :: ChannelConfig where
  "example_cfg = (case cfg_parse False (example_doc policy_example) ChannelConfig_new of Ok c \<Rightarrow> c)"

lemma example_parsed: "cfg_parse False (example_doc policy_example) ChannelConfig_new = Ok example_cfg"
proof -
  have "case cfg_parse False (example_doc policy_example) ChannelConfig_new of Ok _ \<Rightarrow> True | _ \<Rightarrow> False"
    by code_simp
  then show ?thesis by (auto simp: example_cfg_def split: res.splits)
qed

definition mesh_cfg :: ChannelConfig where
  "mesh_cfg = (case cfg_parse False (example_doc (JString ''all'')) ChannelConfig_new of Ok c \<Rightarrow> c)"

lemma mesh_parsed: "cfg_parse False (example_doc (JString ''all'')) ChannelConfig_new = Ok mesh_cfg"
proof -
  have "case cfg_parse False (example_doc (JString ''all'')) ChannelConfig_new of Ok _ \<Rightarrow> True | _ \<Rightarrow> False"
    by code_simp
  then show ?thesis by (auto simp: mesh_cfg_def split: res.splits)
qed

lemma example_wf: "cfg_wf example_cfg" "cfg_wf mesh_cfg"
  using cfg_parse_wf [OF _ new_wf(1) [of "[]"] new_wf(2) [of "[]"]] example_parsed mesh_parsed
  by (simp_all add: ChannelConfig_new_def)

text \<open>A parser that knows the example only.\<close>

definition example_parser :: "string \<Rightarrow> json option" where
  "example_parser s = (if s = ''example'' then Some (example_doc policy_example) else None)"

theorem config_consistent_witness:
  "(\<exists>cfg. ChannelConfig_of (\<lambda>_. None) example_parser False '''' ''example'' = Ok cfg \<and> cfg_wf cfg) \<and>
   is_event (ChannelConfig_of (\<lambda>_. None) example_parser False '''' ''{'')"
proof -
  have c: "c_str ''example'' = ''example''" "c_str ''{'' = ''{''" by (simp_all add: c_str_def)
  have "ChannelConfig_of (\<lambda>_. None) example_parser False '''' ''example'' = Ok (example_cfg\<lparr>cfg_node_id := ''''\<rparr>)"
    using example_parsed
    by (simp add: ChannelConfig_of_def cfg_load_def Let_def example_parser_def c ChannelConfig_new_def)
  moreover have "example_parser (c_str ''{'') = None" by (simp add: example_parser_def c)
  ultimately show ?thesis
    using config_consistent [of "\<lambda>_. None" example_parser False "''''" "''example''"]
      config_consistent [of "\<lambda>_. None" example_parser False "''''" "''{''"]
    by simp
qed

theorem participants_declared_witness:
  "is_event (parse_data False (JObject [(''DATA_NODES'', JArray (map JString [''p0'', ''px''])),
      (''RESULT_NODES'', JArray (map JString [''p2'']))]) example_cfg)"
proof -
  have w: "nodes_wf example_cfg" "ordered_by (\<lambda>x. x) (task_nodes example_cfg)"
    using example_wf by (simp_all add: cfg_wf_def roles_wf_def)
  have "''px'' \<notin> declared example_cfg" "c_str ''px'' = ''px''" by code_simp+
  then have "\<not> set (map c_str [''p0'', ''px'']) \<subseteq> declared example_cfg" by simp
  then show ?thesis
    using participants_declared [OF w, of "[(''DATA_NODES'', JArray (map JString [''p0'', ''px''])),
      (''RESULT_NODES'', JArray (map JString [''p2'']))]" "[''p0'', ''px'']" "[''p2'']" False]
    by (simp only: if_False) simp
qed

end
