(* ===== verification/Topology.thy ===== *)
theory Topology
  imports Config
begin

text \<open>
  The questions \<^verbatim>\<open>core/src/config.cc\<close> answers about a loaded configuration: the roles and the
  information of a node, and who connects to whom. \<open>operator[]\<close> on a map inserts what it does not
  find, so the questions that use it return the configuration they leave behind.
\<close>

section \<open>Nodes\<close>

fun node_index_from :: "int \<Rightarrow> string \<Rightarrow> Node list \<Rightarrow> int" where
  "node_index_from i nid [] = - 1"
| "node_index_from i nid (n # ns) = (if nid = NODE_ID n then i else node_index_from (i + 1) nid ns)"

definition GetNodeIndex :: "Node list \<Rightarrow> string \<Rightarrow> int" where
  "GetNodeIndex ns nid = node_index_from 0 nid ns"

definition GetNodeType :: "ChannelConfig \<Rightarrow> string \<Rightarrow> NODE_TYPE list" where
  "GetNodeType cfg nid =
     map (\<lambda>_. NODE_TYPE_DATA) (filter (\<lambda>n. nid = NODE_ID n) (data_config cfg)) @
     map (\<lambda>_. NODE_TYPE_COMPUTE) (filter (\<lambda>n. nid = NODE_ID n) (compute_config cfg)) @
     map (\<lambda>_. NODE_TYPE_RESULT) (filter (\<lambda>n. nid = NODE_ID n) (result_config cfg))"

definition isNodeType :: "NODE_TYPE list \<Rightarrow> NODE_TYPE \<Rightarrow> bool" where
  "isNodeType ts t = list_ex (\<lambda>u. u = t) ts"

definition GetNode :: "ChannelConfig \<Rightarrow> string \<Rightarrow> Node res" where
  "GetNode cfg nid =
     (case find (\<lambda>n. nid = NODE_ID n) (data_config cfg) of
        Some n \<Rightarrow> Ok n
      | None \<Rightarrow>
          (case find (\<lambda>n. nid = NODE_ID n) (compute_config cfg) of
             Some n \<Rightarrow> Ok n
           | None \<Rightarrow>
               (case find (\<lambda>n. nid = NODE_ID n) (result_config cfg) of
                  Some n \<Rightarrow> Ok n
                | None \<Rightarrow> HANDLE_EXCEPTION_EVENT C_EVENT_CODE_NO_FIND_NID (cfg_task_id cfg) [StrArg nid])))"

text \<open>The textual form of a list of nodes, one function for the three classes that have it.\<close>

definition nodes_to_string :: "Node list \<Rightarrow> string" where
  "nodes_to_string ns =
     concat (map (\<lambda>(i, n).
       [CHR 0x0A] @ ''        P'' @ dec_nat i @ '' NAME: '' @ NAME n @
       [CHR 0x0A] @ ''        P'' @ dec_nat i @ '' ADDRESS: '' @ ADDRESS n) (enumerate 0 ns)) @ [CHR 0x0A]"

definition fmt_print :: "ChannelConfig \<Rightarrow> string" where
  "fmt_print cfg =
     ''======================================='' @ [CHR 0x0A] @
     ''          node_id_: '' @ cfg_node_id cfg @ [CHR 0x0A] @
     nodes_to_string (data_config cfg) @ nodes_to_string (compute_config cfg) @
     nodes_to_string (result_config cfg) @
     ''======================================='' @ [CHR 0x0A]"

section \<open>Information for a connection\<close>

text \<open>\<open>via_to_address_[nodeid_to_via_[id]]\<close> and its two siblings.\<close>

definition lookup_via :: "string \<Rightarrow> ChannelConfig \<Rightarrow> string \<times> ChannelConfig" where
  "lookup_via nid cfg =
     (let (name, m) = map_index nid [] (nodeid_to_via cfg); cfg = cfg\<lparr>nodeid_to_via := m\<rparr>;
          (addr, a) = map_index name [] (via_to_address cfg) in
      (addr, cfg\<lparr>via_to_address := a\<rparr>))"

definition lookup_glacier2 :: "string \<Rightarrow> ChannelConfig \<Rightarrow> IcePlugCfg \<times> ChannelConfig" where
  "lookup_glacier2 nid cfg =
     (let (name, m) = map_index nid [] (nodeid_to_glacier2 cfg); cfg = cfg\<lparr>nodeid_to_glacier2 := m\<rparr>;
          (p, a) = map_index name IcePlugCfg_new (glacier2_to_info cfg) in
      (p, cfg\<lparr>glacier2_to_info := a\<rparr>))"

definition lookup_icegrid :: "string \<Rightarrow> ChannelConfig \<Rightarrow> IcePlugCfg \<times> ChannelConfig" where
  "lookup_icegrid nid cfg =
     (let (name, m) = map_index nid [] (nodeid_to_icegrid cfg); cfg = cfg\<lparr>nodeid_to_icegrid := m\<rparr>;
          (p, a) = map_index name IcePlugCfg_new (icegrid_to_info cfg) in
      (p, cfg\<lparr>icegrid_to_info := a\<rparr>))"

definition CopyNodeInfo :: "bool \<Rightarrow> Node \<Rightarrow> NodeInfo \<Rightarrow> ChannelConfig \<Rightarrow> NodeInfo \<times> ChannelConfig" where
  "CopyNodeInfo gm n info cfg =
     (let info = info\<lparr>ni_id := NODE_ID n, ni_address := ADDRESS n, ni_public_ip := PUBLIC_IP n,
            ni_ca_cert_path := root_cert cfg, ni_cert_dir := CERT_DIR n,
            ni_server_key_path := SERVER_KEY_PATH n, ni_server_cert_path := SERVER_CERT_PATH n,
            ni_client_key_path := CLIENT_KEY_PATH n, ni_client_cert_path := CLIENT_CERT_PATH n,
            ni_password := PASSWORD n\<rparr>;
          info = (if gm then
            info\<lparr>ni_server_sign_key_path := SERVER_SIGN_KEY_PATH n,
                ni_server_sign_cert_path := SERVER_SIGN_CERT_PATH n,
                ni_server_enc_key_path := SERVER_ENC_KEY_PATH n,
                ni_server_enc_cert_path := SERVER_ENC_CERT_PATH n,
                ni_client_sign_key_path := CLIENT_SIGN_KEY_PATH n,
                ni_client_sign_cert_path := CLIENT_SIGN_CERT_PATH n,
                ni_client_enc_key_path := CLIENT_ENC_KEY_PATH n,
                ni_client_enc_cert_path := CLIENT_ENC_CERT_PATH n\<rparr>
            else info);
          (via, cfg) = lookup_via (ni_id info) cfg;
          (gl, cfg) = lookup_glacier2 (ni_id info) cfg;
          (grid, cfg) = lookup_icegrid (ni_id info) cfg in
      (info\<lparr>ni_via_address := via, ni_glacier2_info := gl, ni_ice_grid_info := grid\<rparr>, cfg))"

definition GetCertInfosFromNode :: "bool \<Rightarrow> ViaInfo \<Rightarrow> Node \<Rightarrow> ViaInfo" where
  "GetCertInfosFromNode gm v n =
     (let v = v\<lparr>vi_cert_dir := CERT_DIR n, vi_ca_cert_path := CA_CERT_PATH n,
            vi_server_cert_path := SERVER_CERT_PATH n, vi_client_key_path := CLIENT_KEY_PATH n,
            vi_client_cert_path := CLIENT_CERT_PATH n, vi_password := PASSWORD n\<rparr> in
      if gm then
        v\<lparr>vi_server_cert_path := CA_CERT_PATH n, vi_client_sign_key_path := CLIENT_SIGN_KEY_PATH n,
          vi_client_sign_cert_path := CLIENT_SIGN_CERT_PATH n,
          vi_client_enc_key_path := CLIENT_ENC_KEY_PATH n,
          vi_client_enc_cert_path := CLIENT_ENC_CERT_PATH n\<rparr>
      else v)"

section \<open>Who connects to whom\<close>

text \<open>The result of the questions: the client identifiers, the servers, the configuration.\<close>

type_synonym topo = "string list \<times> ViaInfo list \<times> ChannelConfig"

definition GetInfoByNodeId :: "bool \<Rightarrow> string \<Rightarrow> topo \<Rightarrow> topo res" where
  "GetInfoByNodeId gm nid t =
     (case t of (clients, servers, cfg) \<Rightarrow>
      case map_of (node_info_config cfg) nid of
        None \<Rightarrow> HANDLE_EXCEPTION_EVENT C_EVENT_CODE_NO_FIND_NID (cfg_task_id cfg) [StrArg nid]
      | Some node \<Rightarrow>
          let (via, m) = map_index nid [] (nodeid_to_via cfg);
              cfg = cfg\<lparr>nodeid_to_via := m\<rparr>;
              (gl, cfg) = lookup_glacier2 nid cfg;
              v = ViaInfo_new\<lparr>vi_id := nid, vi_via := via, vi_glacier2_info := gl,
                             vi_via_address := ADDRESS node\<rparr>;
              v = GetCertInfosFromNode gm v node in
          Ok (set_insert nid clients, set_insert_by vi_id v servers, cfg))"

definition GetAllNodeInfos :: "bool \<Rightarrow> string \<Rightarrow> topo \<Rightarrow> topo res" where
  "GetAllNodeInfos gm node_id t =
     res_fold (\<lambda>nid t. if node_id \<noteq> nid then GetInfoByNodeId gm nid t else Ok t)
       (task_nodes (snd (snd t))) t"

text \<open>One turn of the loop over the policy (lines 570-585): the clients found for the servers are thrown away.\<close>

definition policy_turn :: "bool \<Rightarrow> string \<Rightarrow> string \<times> string list \<Rightarrow> topo \<Rightarrow> topo res" where
  "policy_turn gm node_id e t =
     (case (e, t) of ((first, second), (clients, servers, cfg)) \<Rightarrow>
      res_bind
        (if first = node_id then
           res_bind (res_fold (GetInfoByNodeId gm) second ([], servers, cfg)) (\<lambda>(_, servers, cfg).
           Ok (clients, servers, cfg))
         else Ok (clients, servers, cfg)) (\<lambda>(clients, servers, cfg).
      Ok (if first \<noteq> node_id \<and> node_id \<in> set second then set_insert first clients else clients,
          servers, cfg)))"

definition GetNodeInfos :: "bool \<Rightarrow> string \<Rightarrow> topo \<Rightarrow> topo res" where
  "GetNodeInfos gm node_id t =
     (case t of (clients, servers, cfg) \<Rightarrow>
      if length (map_policy cfg) = 0 then GetAllNodeInfos gm node_id t
      else
        res_bind (res_fold (policy_turn gm node_id) (map_policy cfg) t) (\<lambda>(clients, servers, cfg).
        if clients = [] \<and> servers = [] then
          HANDLE_EXCEPTION_EVENT C_EVENT_CODE_NEITHER_CLIENT_SERVER '''' [StrArg node_id]
        else Ok (clients, servers, cfg)))"

section \<open>Properties of the topology\<close>

text \<open>
  A question leaves the declared nodes, the roles, the policy and the timeouts as they are; it may
  only insert empty entries into the address maps.
\<close>

definition same_nodes :: "ChannelConfig \<Rightarrow> ChannelConfig \<Rightarrow> bool" where
  "same_nodes cfg cfg' \<longleftrightarrow> node_info_config cfg' = node_info_config cfg \<and> task_nodes cfg' = task_nodes cfg \<and>
     map_policy cfg' = map_policy cfg \<and> cfg_task_id cfg' = cfg_task_id cfg \<and> send_timeout cfg' = send_timeout cfg \<and>
     conn_sync cfg' = conn_sync cfg \<and> data_nodes cfg' = data_nodes cfg \<and> compute_nodes cfg' = compute_nodes cfg \<and>
     result_nodes cfg' = result_nodes cfg"

lemma same_nodes_refl [simp]: "same_nodes cfg cfg"
  by (simp add: same_nodes_def)

lemma same_nodes_trans: "same_nodes a b \<Longrightarrow> same_nodes b c \<Longrightarrow> same_nodes a c"
  by (simp add: same_nodes_def)

lemma CopyNodeInfo_frame:
  assumes "CopyNodeInfo gm n info cfg = (info', cfg')"
  shows "ni_id info' = NODE_ID n \<and> same_nodes cfg cfg'"
  using assms
  by (auto simp: CopyNodeInfo_def lookup_via_def lookup_glacier2_def lookup_icegrid_def same_nodes_def Let_def split_beta)

lemma GetInfo_declared:
  assumes "nid \<in> declared cfg"
  shows "\<exists>v cfg'. GetInfoByNodeId gm nid (clients, servers, cfg) =
      Ok (set_insert nid clients, set_insert_by vi_id v servers, cfg') \<and> vi_id v = nid \<and> same_nodes cfg cfg'"
proof -
  obtain n where n: "map_of (node_info_config cfg) nid = Some n"
    using assms by (metis map_of_eq_None_iff option.exhaust)
  obtain via m where v: "map_index nid [] (nodeid_to_via cfg) = (via, m)" by force
  obtain gl c where g: "lookup_glacier2 nid (cfg\<lparr>nodeid_to_via := m\<rparr>) = (gl, c)" by force
  then have "same_nodes cfg c" by (auto simp: lookup_glacier2_def same_nodes_def Let_def split: prod.splits)
  moreover have "vi_id (GetCertInfosFromNode gm w n) = vi_id w" for w
    by (simp add: GetCertInfosFromNode_def Let_def)
  ultimately show ?thesis by (auto simp: GetInfoByNodeId_def n v g Let_def)
qed

lemma GetInfo_undeclared:
  assumes "nid \<notin> declared cfg"
  shows "is_event (GetInfoByNodeId gm nid (clients, servers, cfg))"
proof -
  have "map_of (node_info_config cfg) nid = None" using assms by (simp add: map_of_eq_None_iff)
  moreover have "is_event (HANDLE_EXCEPTION_EVENT C_EVENT_CODE_NO_FIND_NID (cfg_task_id cfg) [StrArg nid] :: topo res)"
    by (rule is_event_handle) (simp add: event_kinds_table)
  ultimately show ?thesis by (simp add: GetInfoByNodeId_def)
qed

text \<open>A set of clients and a set of servers, as the loops build them up.\<close>

definition topo_ok :: "ChannelConfig \<Rightarrow> string set \<Rightarrow> string set \<Rightarrow> topo \<Rightarrow> bool" where
  "topo_ok cfg C S t \<longleftrightarrow> (case t of (clients, servers, cfg') \<Rightarrow>
     ordered_by (\<lambda>x. x) clients \<and> set clients = C \<and> ordered_by vi_id servers \<and>
     vi_id ` set servers = S \<and> same_nodes cfg cfg')"

lemma topo_ok_info:
  assumes "topo_ok cfg C S t" "nid \<in> declared cfg"
  shows "\<exists>t'. GetInfoByNodeId gm nid t = Ok t' \<and> topo_ok cfg (insert nid C) (insert nid S) t'"
proof -
  obtain clients servers c where t: "t = (clients, servers, c)" using prod_cases3 by blast
  have "nid \<in> declared c" using assms by (simp add: topo_ok_def t same_nodes_def)
  then obtain v c' where "GetInfoByNodeId gm nid t = Ok (set_insert nid clients, set_insert_by vi_id v servers, c')"
      "vi_id v = nid" "same_nodes c c'"
    using GetInfo_declared unfolding t by metis
  then show ?thesis
    using assms(1) same_nodes_trans
    by (fastforce simp: topo_ok_def t set_insert_by_ordered keys_of_insert)
qed

lemma topo_ok_event:
  assumes "topo_ok cfg C S t" "nid \<notin> declared cfg"
  shows "is_event (GetInfoByNodeId gm nid t)"
  using assms GetInfo_undeclared by (cases t) (auto simp: topo_ok_def same_nodes_def)

lemma topo_fold:
  assumes "topo_ok cfg C S t"
  shows "set ns \<subseteq> declared cfg \<Longrightarrow>
      \<exists>t'. res_fold (GetInfoByNodeId gm) ns t = Ok t' \<and> topo_ok cfg (set ns \<union> C) (set ns \<union> S) t'"
    and "\<not> set ns \<subseteq> declared cfg \<Longrightarrow> is_event (res_fold (GetInfoByNodeId gm) ns t)"
proof -
  have "(set ns \<subseteq> declared cfg \<longrightarrow>
      (\<exists>t'. res_fold (GetInfoByNodeId gm) ns t = Ok t' \<and> topo_ok cfg (set ns \<union> C) (set ns \<union> S) t')) \<and>
    (\<not> set ns \<subseteq> declared cfg \<longrightarrow> is_event (res_fold (GetInfoByNodeId gm) ns t))"
    using assms
  proof (induction ns arbitrary: t C S)
    case (Cons n ns)
    show ?case
    proof (cases "n \<in> declared cfg")
      case True
      then obtain t1 where t1: "GetInfoByNodeId gm n t = Ok t1" "topo_ok cfg (insert n C) (insert n S) t1"
        using topo_ok_info [OF Cons.prems, of n gm] by blast
      then show ?thesis using Cons.IH [OF t1(2)] True by simp
    next
      case False
      then show ?thesis
        using topo_ok_event [OF Cons.prems False, of gm]
        by (cases "GetInfoByNodeId gm n t") (auto simp: is_event_def)
    qed
  qed simp
  then show "set ns \<subseteq> declared cfg \<Longrightarrow>
      \<exists>t'. res_fold (GetInfoByNodeId gm) ns t = Ok t' \<and> topo_ok cfg (set ns \<union> C) (set ns \<union> S) t'"
    "\<not> set ns \<subseteq> declared cfg \<Longrightarrow> is_event (res_fold (GetInfoByNodeId gm) ns t)"
    by blast+
qed

lemma GetAll_eq:
  "GetAllNodeInfos gm node_id t =
     res_fold (GetInfoByNodeId gm) (filter (\<lambda>n. node_id \<noteq> n) (task_nodes (snd (snd t)))) t"
proof -
  have "res_fold (\<lambda>nid t. if node_id \<noteq> nid then GetInfoByNodeId gm nid t else Ok t) ns s
      = res_fold (GetInfoByNodeId gm) (filter (\<lambda>n. node_id \<noteq> n) ns) s" for ns s
  proof (induction ns arbitrary: s)
    case (Cons n ns)
    have "res_fold (\<lambda>nid t. if node_id \<noteq> nid then GetInfoByNodeId gm nid t else Ok t) ns
        = res_fold (GetInfoByNodeId gm) (filter (\<lambda>n. node_id \<noteq> n) ns)"
      by (rule ext) (rule Cons.IH)
    then show ?case by simp
  qed simp
  then show ?thesis by (simp add: GetAllNodeInfos_def)
qed

text \<open>Who serves a node and whom it serves, by the policy.\<close>

definition policy_servers :: "ChannelConfig \<Rightarrow> string \<Rightarrow> string set" where
  "policy_servers cfg i = (case map_of (map_policy cfg) i of None \<Rightarrow> {} | Some s \<Rightarrow> set s)"

definition policy_clients :: "ChannelConfig \<Rightarrow> string \<Rightarrow> string set" where
  "policy_clients cfg i = {j. j \<noteq> i \<and> i \<in> policy_servers cfg j}"

definition entry_servers :: "string \<Rightarrow> (string \<times> string list) list \<Rightarrow> string set" where
  "entry_servers i p = \<Union> {set s |s. (i, s) \<in> set p}"

definition entry_clients :: "string \<Rightarrow> (string \<times> string list) list \<Rightarrow> string set" where
  "entry_clients i p = {j. j \<noteq> i \<and> (\<exists>s. (j, s) \<in> set p \<and> i \<in> set s)}"

lemma entries_of_policy:
  assumes "ordered_by fst (map_policy cfg)"
  shows "entry_servers i (map_policy cfg) = policy_servers cfg i"
    "entry_clients i (map_policy cfg) = policy_clients cfg i"
proof -
  have m: "(j, s) \<in> set (map_policy cfg) \<longleftrightarrow> map_of (map_policy cfg) j = Some s" for j s
    using ordered_by_distinct [OF assms] by simp
  show "entry_servers i (map_policy cfg) = policy_servers cfg i"
    by (auto simp: entry_servers_def policy_servers_def m split: option.splits)
  show "entry_clients i (map_policy cfg) = policy_clients cfg i"
    by (auto simp: entry_clients_def policy_clients_def policy_servers_def m split: option.splits)
qed

lemma entries_Cons:
  "entry_servers i ((j, s) # p) = (if j = i then set s else {}) \<union> entry_servers i p"
  "entry_clients i ((j, s) # p) = (if j \<noteq> i \<and> i \<in> set s then {j} else {}) \<union> entry_clients i p"
  by (auto simp: entry_servers_def entry_clients_def)

lemma policy_turn_outcome:
  assumes "topo_ok cfg C S t"
  shows "j = i \<longrightarrow> set s \<subseteq> declared cfg \<Longrightarrow> \<exists>t'. policy_turn gm i (j, s) t = Ok t' \<and>
      topo_ok cfg ((if j \<noteq> i \<and> i \<in> set s then {j} else {}) \<union> C) ((if j = i then set s else {}) \<union> S) t'"
    and "j = i \<Longrightarrow> \<not> set s \<subseteq> declared cfg \<Longrightarrow> is_event (policy_turn gm i (j, s) t)"
proof -
  obtain clients servers c where t: "t = (clients, servers, c)" using prod_cases3 by blast
  have start: "topo_ok cfg {} S ([], servers, c)" using assms by (simp add: topo_ok_def t)
  show "\<exists>t'. policy_turn gm i (j, s) t = Ok t' \<and>
      topo_ok cfg ((if j \<noteq> i \<and> i \<in> set s then {j} else {}) \<union> C) ((if j = i then set s else {}) \<union> S) t'"
    if d: "j = i \<longrightarrow> set s \<subseteq> declared cfg"
  proof (cases "j = i")
    case True
    then obtain x y z where "res_fold (GetInfoByNodeId gm) s ([], servers, c) = Ok (x, y, z)"
        "topo_ok cfg (set s) (set s \<union> S) (x, y, z)"
      using topo_fold(1) [OF start, of s gm] d by auto
    then show ?thesis using assms True by (simp add: policy_turn_def t topo_ok_def)
  next
    case False
    then show ?thesis using assms by (auto simp: policy_turn_def t topo_ok_def set_insert_by_ordered)
  qed
  show "is_event (policy_turn gm i (j, s) t)" if "j = i" "\<not> set s \<subseteq> declared cfg"
    using topo_fold(2) [OF start that(2), of gm] that(1)
    by (cases "res_fold (GetInfoByNodeId gm) s ([], servers, c)") (auto simp: policy_turn_def t is_event_def)
qed

lemma policy_fold:
  assumes "topo_ok cfg C S t"
  shows "entry_servers i p \<subseteq> declared cfg \<Longrightarrow> \<exists>t'. res_fold (policy_turn gm i) p t = Ok t' \<and>
      topo_ok cfg (entry_clients i p \<union> C) (entry_servers i p \<union> S) t'"
    and "\<not> entry_servers i p \<subseteq> declared cfg \<Longrightarrow> is_event (res_fold (policy_turn gm i) p t)"
proof -
  have "(entry_servers i p \<subseteq> declared cfg \<longrightarrow> (\<exists>t'. res_fold (policy_turn gm i) p t = Ok t' \<and>
      topo_ok cfg (entry_clients i p \<union> C) (entry_servers i p \<union> S) t')) \<and>
    (\<not> entry_servers i p \<subseteq> declared cfg \<longrightarrow> is_event (res_fold (policy_turn gm i) p t))"
    using assms
  proof (induction p arbitrary: t C S)
    case Nil
    then show ?case by (simp add: entry_servers_def entry_clients_def)
  next
    case (Cons e p)
    obtain j s where e: "e = (j, s)" by force
    show ?case
    proof (cases "j = i \<longrightarrow> set s \<subseteq> declared cfg")
      case True
      obtain t1 where t1: "policy_turn gm i (j, s) t = Ok t1"
          "topo_ok cfg ((if j \<noteq> i \<and> i \<in> set s then {j} else {}) \<union> C) ((if j = i then set s else {}) \<union> S) t1"
        using policy_turn_outcome(1) [OF Cons.prems True, of gm] by blast
      then show ?thesis
        using Cons.IH [OF t1(2)] True unfolding e by (simp add: entries_Cons Un_ac)
    next
      case False
      then show ?thesis
        using policy_turn_outcome(2) [OF Cons.prems, of j i s gm]
        by (cases "policy_turn gm i (j, s) t") (auto simp: e entries_Cons is_event_def)
    qed
  qed
  then show "entry_servers i p \<subseteq> declared cfg \<Longrightarrow> \<exists>t'. res_fold (policy_turn gm i) p t = Ok t' \<and>
      topo_ok cfg (entry_clients i p \<union> C) (entry_servers i p \<union> S) t'"
    "\<not> entry_servers i p \<subseteq> declared cfg \<Longrightarrow> is_event (res_fold (policy_turn gm i) p t)"
    by blast+
qed

lemma topo_start: "same_nodes cfg cfg' \<Longrightarrow> topo_ok cfg {} {} ([], [], cfg')"
  by (simp add: topo_ok_def)

text \<open>The clients and the servers of a node, and the condition under which it gets them.\<close>

definition node_clients :: "ChannelConfig \<Rightarrow> string \<Rightarrow> string set" where
  "node_clients cfg i = (if map_policy cfg = [] then set (task_nodes cfg) - {i} else policy_clients cfg i)"

definition node_servers :: "ChannelConfig \<Rightarrow> string \<Rightarrow> string set" where
  "node_servers cfg i = (if map_policy cfg = [] then set (task_nodes cfg) - {i} else policy_servers cfg i)"

definition answerable :: "ChannelConfig \<Rightarrow> string \<Rightarrow> bool" where
  "answerable cfg i \<longleftrightarrow> map_policy cfg = [] \<or>
     policy_servers cfg i \<subseteq> declared cfg \<and> policy_clients cfg i \<union> policy_servers cfg i \<noteq> {}"

lemma topo_ok_cases:
  assumes "topo_ok cfg C S t"
  obtains clients servers cfg' where "t = (clients, servers, cfg')" "topo_ok cfg C S (clients, servers, cfg')"
    "set clients = C" "vi_id ` set servers = S"
  using assms by (cases t) (auto simp: topo_ok_def)

lemma mesh_outcome:
  assumes "cfg_wf cfg" "map_policy cfg = []" "same_nodes cfg cfg1"
  shows "\<exists>t. GetNodeInfos gm i ([], [], cfg1) = Ok t \<and> topo_ok cfg (node_clients cfg i) (node_servers cfg i) t"
proof -
  let ?ns = "filter (\<lambda>n. i \<noteq> n) (task_nodes cfg)"
  have "set ?ns \<subseteq> declared cfg" using assms(1) by (auto simp: cfg_wf_def roles_wf_def)
  moreover have "task_nodes cfg1 = task_nodes cfg" "map_policy cfg1 = []"
    using assms(2,3) by (simp_all add: same_nodes_def)
  moreover have "set ?ns = set (task_nodes cfg) - {i}" by auto
  ultimately show ?thesis
    using topo_fold(1) [OF topo_start [OF assms(3)], of ?ns gm] assms(2)
    by (auto simp: GetNodeInfos_def GetAll_eq node_clients_def node_servers_def)
qed

lemma policy_outcome:
  assumes "cfg_wf cfg" "map_policy cfg \<noteq> []" "same_nodes cfg cfg1"
  shows "answerable cfg i \<Longrightarrow>
      \<exists>t. GetNodeInfos gm i ([], [], cfg1) = Ok t \<and> topo_ok cfg (node_clients cfg i) (node_servers cfg i) t"
    and "\<not> answerable cfg i \<Longrightarrow> is_event (GetNodeInfos gm i ([], [], cfg1))"
proof -
  have o: "ordered_by fst (map_policy cfg)" using assms(1) by (simp add: cfg_wf_def)
  have p: "map_policy cfg1 = map_policy cfg" using assms(3) by (simp add: same_nodes_def)
  note fold = policy_fold [OF topo_start [OF assms(3)], of i "map_policy cfg", unfolded entries_of_policy [OF o]]
  have ev: "is_event (HANDLE_EXCEPTION_EVENT C_EVENT_CODE_NEITHER_CLIENT_SERVER '''' [StrArg i] :: topo res)"
    by (rule is_event_handle) (simp add: event_kinds_table)
  have sets: "node_clients cfg i = policy_clients cfg i" "node_servers cfg i = policy_servers cfg i"
    using assms(2) by (simp_all add: node_clients_def node_servers_def)
  have run: "GetNodeInfos gm i ([], [], cfg1) =
        (if policy_clients cfg i \<union> policy_servers cfg i = {}
         then HANDLE_EXCEPTION_EVENT C_EVENT_CODE_NEITHER_CLIENT_SERVER '''' [StrArg i] else Ok t)"
    if "res_fold (policy_turn gm i) (map_policy cfg) ([], [], cfg1) = Ok t"
      "topo_ok cfg (policy_clients cfg i) (policy_servers cfg i) t" for t
    using that(1) assms(2) p by (cases rule: topo_ok_cases [OF that(2)]) (auto simp: GetNodeInfos_def)
  show "\<exists>t. GetNodeInfos gm i ([], [], cfg1) = Ok t \<and> topo_ok cfg (node_clients cfg i) (node_servers cfg i) t"
    if "answerable cfg i"
    using that assms(2) fold(1) [of gm] run unfolding answerable_def sets by fastforce
  show "is_event (GetNodeInfos gm i ([], [], cfg1))" if bad: "\<not> answerable cfg i"
  proof (cases "policy_servers cfg i \<subseteq> declared cfg")
    case True
    then show ?thesis using bad assms(2) fold(1) [OF True, of gm] run ev unfolding answerable_def by auto
  next
    case False
    then show ?thesis
      using is_event_bind [OF fold(2) [OF False, of gm]] assms(2) p by (simp add: GetNodeInfos_def)
  qed
qed

lemma topo_outcome:
  assumes "cfg_wf cfg" "same_nodes cfg cfg1"
  shows "answerable cfg i \<Longrightarrow>
      \<exists>t. GetNodeInfos gm i ([], [], cfg1) = Ok t \<and> topo_ok cfg (node_clients cfg i) (node_servers cfg i) t"
    and "\<not> answerable cfg i \<Longrightarrow> is_event (GetNodeInfos gm i ([], [], cfg1))"
  using mesh_outcome [OF assms(1) _ assms(2)] policy_outcome [OF assms(1) _ assms(2)]
  by (cases "map_policy cfg = []"; simp add: answerable_def)+

lemma topo_outcome_Ok:
  assumes "cfg_wf cfg" "same_nodes cfg cfg1" "GetNodeInfos gm i ([], [], cfg1) = Ok (c, s, cfg2)"
  shows "topo_ok cfg (node_clients cfg i) (node_servers cfg i) (c, s, cfg2)" "answerable cfg i"
    "set c = node_clients cfg i" "vi_id ` set s = node_servers cfg i"
proof -
  show a: "answerable cfg i" using topo_outcome(2) [OF assms(1,2)] assms(3) is_event_not_Ok(1) by metis
  then show "topo_ok cfg (node_clients cfg i) (node_servers cfg i) (c, s, cfg2)"
    using topo_outcome(1) [OF assms(1,2) a, of gm] assms(3) by auto
  then show "set c = node_clients cfg i" "vi_id ` set s = node_servers cfg i" by (simp_all add: topo_ok_def)
qed

lemma ends_agree:
  "i \<noteq> j \<Longrightarrow> i \<in> set (task_nodes cfg) \<Longrightarrow> j \<in> set (task_nodes cfg) \<Longrightarrow>
   j \<in> node_servers cfg i \<longleftrightarrow> i \<in> node_clients cfg j"
  by (auto simp: node_servers_def node_clients_def policy_clients_def)

text \<open>
  C25. Who connects to whom, exactly. Without a policy a node's clients and its servers are all
  the other task nodes. With one, its servers are the nodes its own entry lists and its clients
  are the other nodes that list it; the question is refused with an event exactly when an entry
  names an undeclared node or the node would be neither client nor server.
\<close>

theorem topology_exact:
  assumes "cfg_wf cfg"
  shows "if map_policy cfg = [] then
      \<exists>clients servers cfg'. GetNodeInfos gm i ([], [], cfg) = Ok (clients, servers, cfg') \<and>
        set clients = set (task_nodes cfg) - {i} \<and> vi_id ` set servers = set (task_nodes cfg) - {i}
    else if policy_servers cfg i \<subseteq> declared cfg \<and> policy_clients cfg i \<union> policy_servers cfg i \<noteq> {} then
      \<exists>clients servers cfg'. GetNodeInfos gm i ([], [], cfg) = Ok (clients, servers, cfg') \<and>
        set clients = policy_clients cfg i \<and> vi_id ` set servers = policy_servers cfg i
    else is_event (GetNodeInfos gm i ([], [], cfg))"
proof (cases "answerable cfg i")
  case True
  then obtain t where t: "GetNodeInfos gm i ([], [], cfg) = Ok t" "topo_ok cfg (node_clients cfg i) (node_servers cfg i) t"
    using topo_outcome(1) [OF assms same_nodes_refl] by blast
  from t(2) obtain clients servers cfg' where e: "t = (clients, servers, cfg')" "set clients = node_clients cfg i"
      "vi_id ` set servers = node_servers cfg i"
    by (rule topo_ok_cases)
  show ?thesis
    using True e(2,3) unfolding t(1) e(1) answerable_def node_clients_def node_servers_def
    by (cases "map_policy cfg = []") simp_all
next
  case False
  then have "map_policy cfg \<noteq> []"
      "\<not> (policy_servers cfg i \<subseteq> declared cfg \<and> policy_clients cfg i \<union> policy_servers cfg i \<noteq> {})"
    unfolding answerable_def by blast+
  then show ?thesis using topo_outcome(2) [OF assms same_nodes_refl False, of gm] by (simp only: if_False)
qed

text \<open>
  The two ends agree. For two task nodes that both get an answer, the one is among the
  servers of the other if and only if the other is among its clients; so every connection a
  node opens is to a node that keeps a receive buffer for it.
\<close>

lemma topology_symmetric:
  assumes "cfg_wf cfg" "i \<noteq> j" "i \<in> set (task_nodes cfg)" "j \<in> set (task_nodes cfg)"
    "GetNodeInfos gm i ([], [], cfg) = Ok (ci, si, cfg1)" "GetNodeInfos gm j ([], [], cfg) = Ok (cj, sj, cfg2)"
  shows "j \<in> vi_id ` set si \<longleftrightarrow> i \<in> set cj"
  using ends_agree [OF assms(2-4)] topo_outcome_Ok(4) [OF assms(1) same_nodes_refl assms(5)]
    topo_outcome_Ok(3) [OF assms(1) same_nodes_refl assms(6)] by simp

text \<open>The participants of a task by their roles, and how \<open>GetNode\<close> searches them.\<close>

lemma role_ids:
  assumes "cfg_wf cfg"
  shows "NODE_ID ` set (data_config cfg) = set (data_nodes cfg)"
    "NODE_ID ` set (compute_config cfg) = fst ` set (compute_nodes cfg)"
    "NODE_ID ` set (result_config cfg) = set (result_nodes cfg)"
    "set (task_nodes cfg) = set (data_nodes cfg) \<union> fst ` set (compute_nodes cfg) \<union> set (result_nodes cfg)"
  using assms unfolding cfg_wf_def roles_wf_def by (metis set_map)+

lemma find_append: "find P (xs @ ys) = (case find P xs of Some x \<Rightarrow> Some x | None \<Rightarrow> find P ys)"
  by (induction xs) auto

lemma GetNode_find:
  "GetNode cfg nid =
     (case find (\<lambda>n. nid = NODE_ID n) (data_config cfg @ compute_config cfg @ result_config cfg) of
        Some n \<Rightarrow> Ok n
      | None \<Rightarrow> HANDLE_EXCEPTION_EVENT C_EVENT_CODE_NO_FIND_NID (cfg_task_id cfg) [StrArg nid])"
  by (simp add: GetNode_def find_append split: option.split)

lemma GetNode_outcome:
  assumes "cfg_wf cfg"
  shows "nid \<in> set (task_nodes cfg) \<Longrightarrow> \<exists>n. GetNode cfg nid = Ok n \<and> NODE_ID n = nid"
    and "nid \<notin> set (task_nodes cfg) \<Longrightarrow> is_event (GetNode cfg nid)"
proof -
  let ?ns = "data_config cfg @ compute_config cfg @ result_config cfg"
  have w: "set (task_nodes cfg) = NODE_ID ` set ?ns" using role_ids [OF assms] by auto
  show "\<exists>n. GetNode cfg nid = Ok n \<and> NODE_ID n = nid" if "nid \<in> set (task_nodes cfg)"
  proof -
    have "find (\<lambda>n. nid = NODE_ID n) ?ns \<noteq> None" using that unfolding w find_None_iff by blast
    then obtain n where n: "find (\<lambda>n. nid = NODE_ID n) ?ns = Some n" by blast
    then have "NODE_ID n = nid" unfolding find_Some_iff by auto
    then show ?thesis using n by (simp add: GetNode_find)
  qed
  show "is_event (GetNode cfg nid)" if "nid \<notin> set (task_nodes cfg)"
  proof -
    have "find (\<lambda>n. nid = NODE_ID n) ?ns = None" using that unfolding w find_None_iff by blast
    then show ?thesis unfolding GetNode_find by (simp add: is_event_handle event_kinds_table)
  qed
qed

lemma GetNode_Ok:
  assumes "cfg_wf cfg" "GetNode cfg nid = Ok n"
  shows "nid \<in> set (task_nodes cfg) \<and> NODE_ID n = nid"
  using GetNode_outcome [OF assms(1), of nid] assms(2) is_event_not_Ok(1) by fastforce

text \<open>
  C26. \<open>GetNode\<close> finds every participant of the task, with its own information, and reports
  \<open>NO_FIND_NID\<close> for every other identifier; \<open>GetNodeType\<close> tells its roles.
\<close>

theorem GetNode_exact:
  assumes "cfg_wf cfg"
  shows "(if nid \<in> set (task_nodes cfg) then \<exists>n. GetNode cfg nid = Ok n \<and> NODE_ID n = nid
      else is_event (GetNode cfg nid)) \<and>
    (isNodeType (GetNodeType cfg nid) NODE_TYPE_DATA \<longleftrightarrow> nid \<in> set (data_nodes cfg)) \<and>
    (isNodeType (GetNodeType cfg nid) NODE_TYPE_COMPUTE \<longleftrightarrow> nid \<in> fst ` set (compute_nodes cfg)) \<and>
    (isNodeType (GetNodeType cfg nid) NODE_TYPE_RESULT \<longleftrightarrow> nid \<in> set (result_nodes cfg))"
proof -
  have "isNodeType (GetNodeType cfg nid) NODE_TYPE_DATA \<longleftrightarrow> nid \<in> set (data_nodes cfg)"
      "isNodeType (GetNodeType cfg nid) NODE_TYPE_COMPUTE \<longleftrightarrow> nid \<in> fst ` set (compute_nodes cfg)"
      "isNodeType (GetNodeType cfg nid) NODE_TYPE_RESULT \<longleftrightarrow> nid \<in> set (result_nodes cfg)"
    by (auto simp: isNodeType_def GetNodeType_def list_ex_iff simp flip: role_ids(1-3) [OF assms])
  then show ?thesis using GetNode_outcome [OF assms, of nid] by simp
qed

theorem topology_exact_witness:
  "\<exists>clients servers cfg'. GetNodeInfos False ''p1'' ([], [], example_cfg) = Ok (clients, servers, cfg') \<and>
    set clients = {''p0''} \<and> vi_id ` set servers = {''p2''}"
proof -
  have p: "map_policy example_cfg = [(''p0'', [''p1'']), (''p1'', [''p2''])]" by code_simp
  have s: "policy_servers example_cfg ''p1'' = {''p2''}" by (simp add: policy_servers_def p)
  have c: "policy_clients example_cfg ''p1'' = {''p0''}"
    by (auto simp: policy_clients_def policy_servers_def p split: if_splits)
  have d: "''p2'' \<in> declared example_cfg" by code_simp
  show ?thesis using topology_exact [OF example_wf(1), of False "''p1''"] by (simp add: p s c d)
qed

lemma topology_symmetric_example:
  "\<exists>ci si c1 cj sj c2. GetNodeInfos False ''p0'' ([], [], mesh_cfg) = Ok (ci, si, c1) \<and>
    GetNodeInfos False ''p2'' ([], [], mesh_cfg) = Ok (cj, sj, c2) \<and>
    (''p2'' \<in> vi_id ` set si \<longleftrightarrow> ''p0'' \<in> set cj)"
proof -
  have p: "map_policy mesh_cfg = []" and t: "''p0'' \<in> set (task_nodes mesh_cfg)" "''p2'' \<in> set (task_nodes mesh_cfg)"
    by code_simp+
  obtain ci si c1 cj sj c2 where "GetNodeInfos False ''p0'' ([], [], mesh_cfg) = Ok (ci, si, c1)"
      "GetNodeInfos False ''p2'' ([], [], mesh_cfg) = Ok (cj, sj, c2)"
    using mesh_outcome [OF example_wf(2) p same_nodes_refl, of False "''p0''"]
      mesh_outcome [OF example_wf(2) p same_nodes_refl, of False "''p2''"] by (metis prod_cases3)
  then show ?thesis using topology_symmetric [OF example_wf(2) _ t] by fastforce
qed

theorem GetNode_exact_witness: "\<exists>n. GetNode example_cfg ''p1'' = Ok n \<and> NODE_ID n = ''p1''"
proof -
  have "''p1'' \<in> set (task_nodes example_cfg)" by code_simp
  then show ?thesis using GetNode_exact [OF example_wf(1), of "''p1''"] by simp
qed

end
