(* ===== verification/Ring.thy ===== *)
theory Ring
  imports Chan_Prelude
begin

text \<open>
  Windows of a ring: the \<open>u\<close> cells that start at position \<open>r\<close> of a buffer and continue at its
  front. A position may equal the buffer's length, as the read and write positions of
  \<open>cycle_buffer\<close> do. These are the list facts behind the ring buffer's refinement proof; they
  mention no program state.
\<close>

definition ring_window :: "'a list \<Rightarrow> nat \<Rightarrow> nat \<Rightarrow> 'a list" where
  "ring_window buf r u = take u (drop r buf @ buf)"

definition ring_adv :: "nat \<Rightarrow> nat \<Rightarrow> nat \<Rightarrow> nat" where
  "ring_adv n r k = (if r + k \<le> n then r + k else r + k - n)"

lemma length_ring_window:
  "r \<le> length buf \<Longrightarrow> u \<le> length buf \<Longrightarrow> length (ring_window buf r u) = u"
  by (simp add: ring_window_def)

lemma ring_adv_le: "r \<le> n \<Longrightarrow> k \<le> n \<Longrightarrow> ring_adv n r k \<le> n"
  by (auto simp: ring_adv_def)

text \<open>Where the write position can be, given the read position and the number of bytes held.\<close>

lemma ring_positions:
  fixes n r w u :: nat
  assumes "0 < n" "r \<le> n" "w \<le> n" "u \<le> n" "(r + u) mod n = w mod n"
  obtains "w = r + u" | "w + n = r + u" | "r = 0" "u = 0" "w = n" | "r = n" "u = n" "w = 0"
proof -
  have "w mod n = (if w < n then w else 0)"
    using assms(3) by (cases "w = n") auto
  moreover have "(r + u) mod n = (if r + u < n then r + u else if r + u < 2 * n then r + u - n else 0)"
    using assms(1,2,4) by (auto simp: le_mod_geq)
  ultimately show thesis
    using assms that by (auto split: if_splits)
qed

lemma ring_window_take:
  assumes "r \<le> length buf" "k \<le> u" "u \<le> length buf"
  shows "take k (ring_window buf r u) =
    (if r + k \<le> length buf then take k (drop r buf)
     else drop r buf @ take (k - (length buf - r)) buf)"
  using assms by (auto simp: ring_window_def)

lemma ring_window_drop:
  assumes "r \<le> length buf" "k \<le> u" "u \<le> length buf"
  shows "drop k (ring_window buf r u) = ring_window buf (ring_adv (length buf) r k) (u - k)"
proof (cases "r + k \<le> length buf")
  case True
  then show ?thesis
    using assms by (simp add: ring_window_def ring_adv_def drop_take add.commute)
next
  case False
  then have "k - (length buf - r) = r + k - length buf" using assms by simp
  then show ?thesis
    using assms False by (simp add: ring_window_def ring_adv_def drop_take)
qed

text \<open>Writing behind the window without wrapping.\<close>

lemma ring_window_write_tail:
  assumes "w = r + u" "w + length d \<le> length buf"
  shows "ring_window (take w buf @ d @ drop (w + length d) buf) r (u + length d)
    = ring_window buf r u @ d"
  using assms by (simp add: ring_window_def drop_take add.commute)

text \<open>Writing behind the window across the end of the buffer.\<close>

lemma ring_window_write_wrap:
  assumes "w = r + u" "w \<le> length buf" "length buf \<le> w + length d" "length d + u \<le> length buf"
  shows "ring_window (drop (length buf - w) d @ drop (length d - (length buf - w)) (take w buf @ take (length buf - w) d))
      r (u + length d) = ring_window buf r u @ d"
  using assms by (simp add: ring_window_def drop_take)

text \<open>Writing into the gap between the end of a wrapped window and its start.\<close>

lemma ring_window_write_gap:
  assumes "w + length buf = r + u" "r \<le> length buf" "length d + u \<le> length buf"
  shows "ring_window (take w buf @ d @ drop (w + length d) buf) r (u + length d)
    = ring_window buf r u @ d"
proof -
  have "w + length d \<le> r" "u = length buf - r + w" using assms by linarith+
  then show ?thesis using assms by (simp add: ring_window_def)
qed

end
