(* ===== verification/Timer.thy ===== *)
theory Timer
  imports Cxx_Float
begin

text \<open>
  \<^verbatim>\<open>core/include/simple_timer.h\<close> and \<^verbatim>\<open>core/src/simple_timer.cc\<close>: a stopwatch over
  \<open>steady_clock\<close>. The clock is the argument \<open>now\<close>, in the nanosecond ticks of the clock.
\<close>

record SimpleTimer =
  stoped :: bool
  t_begin :: int
  t_end :: int

definition timer_start :: "int \<Rightarrow> SimpleTimer \<Rightarrow> SimpleTimer" where
  "timer_start now t = t\<lparr>t_begin := now, t_end := now, stoped := False\<rparr>"

definition timer_new :: "int \<Rightarrow> SimpleTimer" where
  "timer_new now = timer_start now \<lparr>stoped = False, t_begin = 0, t_end = 0\<rparr>"

text \<open>\<open>duration<double>\<close> of a tick count: the count as a double, divided by \<open>10^9\<close>.\<close>

definition seconds_of :: "int \<Rightarrow> rat" where
  "seconds_of d = to_double (to_double (of_int d) / 1000000000)"

definition timer_stop :: "int \<Rightarrow> SimpleTimer \<Rightarrow> SimpleTimer \<times> rat" where
  "timer_stop now t = (t\<lparr>t_end := now, stoped := True\<rparr>, seconds_of (now - t_begin t))"

definition ending :: "int \<Rightarrow> SimpleTimer \<Rightarrow> int" where
  "ending now t = (if stoped t then t_end t else now)"

definition elapse :: "int \<Rightarrow> SimpleTimer \<Rightarrow> rat" where
  "elapse now t = seconds_of (ending now t - t_begin t)"

definition ms_elapse :: "int \<Rightarrow> SimpleTimer \<Rightarrow> int" where
  "ms_elapse now t = c_div (ending now t - t_begin t) 1000000"

definition us_elapse :: "int \<Rightarrow> SimpleTimer \<Rightarrow> int" where
  "us_elapse now t = c_div (ending now t - t_begin t) 1000"

definition ns_elapse :: "int \<Rightarrow> SimpleTimer \<Rightarrow> int" where
  "ns_elapse now t = ending now t - t_begin t"

lemmas timer_defs = timer_start_def timer_new_def timer_stop_def ending_def
  elapse_def ms_elapse_def us_elapse_def ns_elapse_def

lemma timer_new_fields [simp]:
  "t_begin (timer_new now) = now" "t_end (timer_new now) = now" "\<not> stoped (timer_new now)"
  by (simp_all add: timer_defs)

lemma timer_start_fields [simp]:
  "t_begin (timer_start now t) = now" "t_end (timer_start now t) = now"
  "\<not> stoped (timer_start now t)"
  by (simp_all add: timer_defs)

lemma ms_elapse_running:
  "\<not> stoped t \<Longrightarrow> t_begin t \<le> now \<Longrightarrow> ms_elapse now t = (now - t_begin t) div 1000000"
  by (simp add: timer_defs c_div_nonneg)

lemma ms_elapse_start: "t0 \<le> now \<Longrightarrow> ms_elapse now (timer_start t0 t) = (now - t0) div 1000000"
  by (simp add: ms_elapse_running)

lemma seconds_of_0 [simp]: "seconds_of 0 = 0"
  by (simp add: seconds_of_def to_double_def round_bin_def)

lemma elapse_start_0 [simp]: "elapse now (timer_start now t) = 0"
  by (simp add: timer_defs)

end
