(* ===== verification/Fifo.thy ===== *)
theory Fifo
  imports Chan_Prelude
begin

text \<open>
  The contract of a first-in first-out byte store, as an interface: what a reader may rely on
  whatever stores the bytes. \<open>Cycle_Buffer\<close> interprets it on the ring buffer. A schedule is the
  sequence in which writers and readers got hold of the store's lock; reading is guarded by the
  store's own readiness test, as \<open>ClientConnection::recv\<close> does.
\<close>

datatype fifo_op = Put "byte list" | Get nat

text \<open>The specification: a list of bytes, appended to at the back and taken from at the front.\<close>

fun spec_step :: "fifo_op \<Rightarrow> byte list \<Rightarrow> byte list list \<times> byte list" where
  "spec_step (Put d) q = ([], q @ d)"
| "spec_step (Get k) q = (if k \<le> length q then ([take k q], drop k q) else ([], q))"

fun spec_run :: "fifo_op list \<Rightarrow> byte list \<Rightarrow> byte list list \<times> byte list" where
  "spec_run [] q = ([], q)"
| "spec_run (x # xs) q =
     (let (o1, q1) = spec_step x q; (o2, q2) = spec_run xs q1 in (o1 @ o2, q2))"

definition fifo_step ::
    "(byte list \<Rightarrow> 's \<Rightarrow> 's res) \<Rightarrow> (nat \<Rightarrow> 's \<Rightarrow> (cell list \<times> 's) res) \<Rightarrow> (nat \<Rightarrow> 's \<Rightarrow> bool)
     \<Rightarrow> fifo_op \<Rightarrow> 's \<Rightarrow> (cell list list \<times> 's) res" where
  "fifo_step put get ready x s =
     (case x of
        Put d \<Rightarrow> res_bind (put d s) (\<lambda>s. Ok ([], s))
      | Get k \<Rightarrow> if ready k s then res_bind (get k s) (\<lambda>(c, s). Ok ([c], s)) else Ok ([], s))"

fun run_steps :: "('x \<Rightarrow> 's \<Rightarrow> ('o list \<times> 's) res) \<Rightarrow> 'x list \<Rightarrow> 's \<Rightarrow> ('o list \<times> 's) res" where
  "run_steps f [] s = Ok ([], s)"
| "run_steps f (x # xs) s =
     res_bind (f x s) (\<lambda>(o1, s). res_bind (run_steps f xs s) (\<lambda>(o2, s). Ok (o1 @ o2, s)))"

primrec put_size :: "fifo_op \<Rightarrow> nat" where
  "put_size (Put d) = length d"
| "put_size (Get k) = 0"

fun puts_of :: "fifo_op list \<Rightarrow> byte list" where
  "puts_of [] = []"
| "puts_of (Put d # xs) = d @ puts_of xs"
| "puts_of (Get k # xs) = puts_of xs"

text \<open>Nothing is lost, duplicated or reordered by the specification itself.\<close>

lemma spec_run_conserves: "spec_run xs q = (os, q') \<Longrightarrow> concat os @ q' = q @ puts_of xs"
proof (induction xs arbitrary: q os)
  case (Cons x xs)
  then show ?case
    by (cases x) (fastforce simp: Let_def split: prod.splits if_splits)+
qed simp

lemma length_puts_of: "length (puts_of xs) = sum_list (map put_size xs)"
  by (induction xs rule: puts_of.induct) auto

locale byte_fifo =
  fixes holds :: "'s \<Rightarrow> byte list \<Rightarrow> bool"
    and put :: "byte list \<Rightarrow> 's \<Rightarrow> 's res"
    and get :: "nat \<Rightarrow> 's \<Rightarrow> (cell list \<times> 's) res"
    and ready :: "nat \<Rightarrow> 's \<Rightarrow> bool"
    and bound :: nat
  assumes put_law: "holds s q \<Longrightarrow> length q + length d \<le> bound \<Longrightarrow>
      \<exists>s'. put d s = Ok s' \<and> holds s' (q @ d)"
    and get_law: "holds s q \<Longrightarrow> k \<le> length q \<Longrightarrow>
      \<exists>s'. get k s = Ok (map Some (take k q), s') \<and> holds s' (drop k q)"
    and ready_law: "holds s q \<Longrightarrow> ready k s \<longleftrightarrow> k \<le> length q"
begin

lemma step_refines:
  assumes "holds s q" "length q + put_size x \<le> bound"
  shows "\<exists>s'. fifo_step put get ready x s = Ok (map (map Some) (fst (spec_step x q)), s')
    \<and> holds s' (snd (spec_step x q))"
proof (cases x)
  case (Put d)
  then show ?thesis using put_law [of s q d] assms by (auto simp: fifo_step_def)
next
  case (Get k)
  then show ?thesis
    using get_law [of s q k] ready_law [of s q k] assms by (auto simp: fifo_step_def)
qed

lemma spec_step_length: "length (snd (spec_step x q)) \<le> length q + put_size x"
  by (cases x) auto

lemma run_refines:
  assumes "holds s q" "length q + sum_list (map put_size xs) \<le> bound"
  shows "\<exists>s'. run_steps (fifo_step put get ready) xs s = Ok (map (map Some) (fst (spec_run xs q)), s')
    \<and> holds s' (snd (spec_run xs q))"
  using assms
proof (induction xs arbitrary: s q)
  case (Cons x xs)
  obtain s1 where s1: "fifo_step put get ready x s = Ok (map (map Some) (fst (spec_step x q)), s1)"
      "holds s1 (snd (spec_step x q))"
    using step_refines [of s q x] Cons.prems by auto
  have "length (snd (spec_step x q)) + sum_list (map put_size xs) \<le> bound"
    using spec_step_length [of x q] Cons.prems(2) by simp
  then show ?case
    using Cons.IH [OF s1(2)] s1(1) by (auto simp: Let_def split: prod.splits)
qed simp

end

end
