(* ===== verification/Cycle_Buffer.thy ===== *)
theory Cycle_Buffer
  imports Ring Timer Fifo
begin

text \<open>
  \<^verbatim>\<open>core/include/cycle_buffer.h\<close> and \<^verbatim>\<open>core/src/cycle_buffer.cc\<close>: the growing byte ring that
  stores received data when the library is built with \<open>USE_BUFFER\<close>. Every operation takes the
  buffer and returns the new one; \<open>now\<close> is the clock reading of its last \<open>timer_.start()\<close>.
  The destination of a copy is the caller's memory \<open>data\<close>. A wait on \<open>cv_\<close> whose condition
  does not hold is \<open>Blocks\<close>. The section ends with the refinement of a byte queue.
\<close>

record cycle_buffer =
  cb_is_full :: bool
  cb_is_empty :: bool
  r_pos :: int
  w_pos :: int
  cb_n :: int
  remain_space :: int
  cb_buffer :: "cell list"
  cb_timer :: SimpleTimer

definition cb_size :: "cycle_buffer \<Rightarrow> int" where
  "cb_size b = cb_n b - remain_space b"

definition cb_new :: "int \<Rightarrow> int \<Rightarrow> cycle_buffer res" where
  "cb_new now n =
     (if n < 0 then Throw BadAlloc
      else Ok \<lparr>cb_is_full = False, cb_is_empty = True, r_pos = 0, w_pos = 0, cb_n = n,
               remain_space = n, cb_buffer = replicate (nat n) None, cb_timer = timer_new now\<rparr>)"

definition cb_reset :: "cycle_buffer \<Rightarrow> cycle_buffer" where
  "cb_reset b = b\<lparr>cb_is_full := False, cb_is_empty := True, r_pos := 0, w_pos := 0,
                  remain_space := cb_n b\<rparr>"

definition cb_can_read :: "int \<Rightarrow> cycle_buffer \<Rightarrow> bool" where
  "cb_can_read len b \<longleftrightarrow> cb_n b - remain_space b \<ge> len"

definition cb_can_remove :: "int \<Rightarrow> rat \<Rightarrow> cycle_buffer \<Rightarrow> bool" where
  "cb_can_remove now t b \<longleftrightarrow> remain_space b = cb_n b \<and> elapse now (cb_timer b) > t"

definition cb_empty :: "cycle_buffer \<Rightarrow> bool" where
  "cb_empty b \<longleftrightarrow> cb_n b = remain_space b"

definition cb_peek ::
    "int \<Rightarrow> cell list \<Rightarrow> int \<Rightarrow> cycle_buffer \<Rightarrow> (int \<times> cell list \<times> cycle_buffer) res" where
  "cb_peek now data len b =
     (if \<not> cb_n b - remain_space b \<ge> len then Blocks
      else res_bind
        (if r_pos b \<ge> w_pos b then
           if r_pos b \<le> cb_n b - len then memcpy data 0 (cb_buffer b) (r_pos b) len
           else let first_n = cb_n b - r_pos b in
             res_bind (memcpy data 0 (cb_buffer b) (r_pos b) first_n) (\<lambda>d.
             memcpy d first_n (cb_buffer b) 0 (len - first_n))
         else memcpy data 0 (cb_buffer b) (r_pos b) len)
        (\<lambda>d. Ok (len, d, b\<lparr>cb_timer := timer_start now (cb_timer b)\<rparr>)))"

definition cb_read ::
    "int \<Rightarrow> cell list \<Rightarrow> int \<Rightarrow> cycle_buffer \<Rightarrow> (int \<times> cell list \<times> cycle_buffer) res" where
  "cb_read now data len b =
     (if \<not> cb_n b - remain_space b \<ge> len then Blocks
      else res_bind
        (if r_pos b \<ge> w_pos b then
           if r_pos b \<le> cb_n b - len then
             res_bind (memcpy data 0 (cb_buffer b) (r_pos b) len) (\<lambda>d. Ok (d, r_pos b + len))
           else let first_n = cb_n b - r_pos b in
             res_bind (memcpy data 0 (cb_buffer b) (r_pos b) first_n) (\<lambda>d.
             res_bind (memcpy d first_n (cb_buffer b) 0 (len - first_n)) (\<lambda>d.
             Ok (d, len - first_n)))
         else res_bind (memcpy data 0 (cb_buffer b) (r_pos b) len) (\<lambda>d. Ok (d, r_pos b + len)))
        (\<lambda>(d, r). Ok (len, d, b\<lparr>r_pos := r, remain_space := remain_space b + len,
                               cb_timer := timer_start now (cb_timer b)\<rparr>)))"

text \<open>The copy into the new allocation of \<open>realloc\<close> (lines 206-216).\<close>

definition cb_grow :: "int \<Rightarrow> cycle_buffer \<Rightarrow> cell list res" where
  "cb_grow new_n b =
     (let newbuffer = replicate (nat new_n) None; havesize = cb_size b in
      if w_pos b > r_pos b then memcpy newbuffer 0 (cb_buffer b) (r_pos b) havesize
      else let first_n = cb_n b - r_pos b in
        res_bind (memcpy newbuffer 0 (cb_buffer b) (r_pos b) first_n) (\<lambda>nb.
        if havesize - first_n > 0 then memcpy nb first_n (cb_buffer b) 0 (havesize - first_n)
        else Ok nb))"

definition cb_realloc :: "int \<Rightarrow> cycle_buffer \<Rightarrow> cycle_buffer res" where
  "cb_realloc len b =
     (if remain_space b \<ge> len then Ok b
      else if cb_n b = 0 then Throw (Undefined ''division by zero'')
      else let q = c_div len (cb_n b) + 2; new_n = cb_n b * q in
        if \<not> i32_ok q \<or> \<not> i32_ok new_n then Throw (Undefined ''signed overflow'')
        else if new_n < 0 then Throw BadAlloc
        else let havesize = cb_size b in
          res_bind (cb_grow new_n b) (\<lambda>nb.
          Ok (b\<lparr>cb_n := new_n, remain_space := new_n - havesize, r_pos := 0,
                w_pos := havesize, cb_buffer := nb\<rparr>)))"

text \<open>The critical section of \<open>write\<close> that copies the data in (lines 241-260).\<close>

definition cb_put :: "int \<Rightarrow> cell list \<Rightarrow> int \<Rightarrow> cycle_buffer \<Rightarrow> cycle_buffer res" where
  "cb_put now data len b =
     res_bind
       (if w_pos b \<ge> r_pos b then
          if w_pos b \<le> cb_n b - len then
            res_bind (memcpy (cb_buffer b) (w_pos b) data 0 len) (\<lambda>bf. Ok (bf, w_pos b + len))
          else let first_n = cb_n b - w_pos b in
            res_bind (memcpy (cb_buffer b) (w_pos b) data 0 first_n) (\<lambda>bf.
            res_bind (memcpy bf 0 data first_n (len - first_n)) (\<lambda>bf.
            Ok (bf, len - first_n)))
        else res_bind (memcpy (cb_buffer b) (w_pos b) data 0 len) (\<lambda>bf. Ok (bf, w_pos b + len)))
       (\<lambda>(bf, w). Ok (b\<lparr>cb_buffer := bf, w_pos := w, remain_space := remain_space b - len,
                         cb_timer := timer_start now (cb_timer b)\<rparr>))"

definition cb_write ::
    "int \<Rightarrow> cell list \<Rightarrow> int \<Rightarrow> cycle_buffer \<Rightarrow> (int \<times> cycle_buffer) res" where
  "cb_write now data len b =
     res_bind (cb_realloc len b) (\<lambda>b.
     if \<not> remain_space b \<ge> len then Blocks
     else res_bind (cb_put now data len b) (\<lambda>b. Ok (len, b)))"

section \<open>Framed messages\<close>

text \<open>
  \<open>can_read()\<close> and \<open>read(string&, string&)\<close> read frames: a little-endian \<open>int32_t\<close> with the
  length of the whole frame, one byte with the length of the identifier plus one, the
  identifier, the data. \<open>sizeof\<close> makes the comparisons with \<open>cb_n - remain_space\<close> and
  \<open>cb_n - sizeof(int32_t)\<close> unsigned 64-bit ones.
\<close>

definition le_i32 :: "byte list \<Rightarrow> int" where
  "le_i32 bs = to_i32 (\<Sum>i<4. uint (bs ! i) * 2 ^ (8 * i))"

text \<open>\<open>*(int32_t*)(p + off)\<close>, as x86-64 loads it: little-endian, from any address.\<close>

definition load_i32 :: "cell list \<Rightarrow> int \<Rightarrow> int res" where
  "load_i32 m off =
     (if 0 \<le> off \<and> off + 4 \<le> int (length m) \<and> None \<notin> set (take 4 (drop (nat off) m))
      then Ok (le_i32 (map the (take 4 (drop (nat off) m))))
      else Throw (Undefined ''load''))"

text \<open>The frame length at the read position when the bytes wrap: lines 96-103 and 124-132.\<close>

definition cb_len_wrapped :: "cycle_buffer \<Rightarrow> int res" where
  "cb_len_wrapped b =
     (let dlen = replicate 4 None in
      res_bind
        (if to_u64 (r_pos b) \<le> to_u64 (cb_n b - 4) then memcpy dlen 0 (cb_buffer b) (r_pos b) 4
         else let remain_len = cb_n b - r_pos b in
           res_bind (memcpy dlen 0 (cb_buffer b) (r_pos b) remain_len) (\<lambda>d.
           memcpy d remain_len (cb_buffer b) 0 (4 - remain_len)))
        (\<lambda>d. load_i32 d 0))"

definition cb_can_read_msg :: "cycle_buffer \<Rightarrow> bool res" where
  "cb_can_read_msg b =
     (if to_u64 (cb_n b - remain_space b) > 5 then
        res_bind (if r_pos b < w_pos b then load_i32 (cb_buffer b) (r_pos b) else cb_len_wrapped b)
          (\<lambda>len. Ok (cb_n b - remain_space b \<ge> len))
      else Ok False)"

text \<open>\<open>s.resize(k)\<close> of an empty or overwritten string: \<open>k\<close> as \<open>size_t\<close> may be too long.\<close>

definition str_resize :: "int \<Rightarrow> cell list res" where
  "str_resize k = (if 0 \<le> k \<and> k < 2 ^ 63 then Ok (replicate (nat k) (Some 0)) else Throw LengthError)"

text \<open>
  Splitting a frame that has been copied out (lines 143-152). The copies read the storage of the
  string \<open>tmp\<close>, which is its characters and the terminating zero; the new read position is the
  remainder of a sum of type \<open>int32_t\<close>.
\<close>

definition cb_split_msg :: "int \<Rightarrow> cell list \<Rightarrow> cell list \<Rightarrow> cell list \<Rightarrow> cycle_buffer \<Rightarrow>
    (int \<times> cell list \<times> cell list \<times> cycle_buffer) res" where
  "cb_split_msg len tmp id0 data0 b =
     (if length tmp > 5 then
        (case tmp ! 4 of
           None \<Rightarrow> Throw (Undefined ''load'')
         | Some c \<Rightarrow>
             let len2 = uint c in
             res_bind (str_resize (len2 - 1)) (\<lambda>id.
             res_bind (memcpy id 0 (tmp @ [Some 0]) 5 (int (length id))) (\<lambda>id.
             res_bind (str_resize (len - 4 - len2)) (\<lambda>data.
             res_bind (memcpy data 0 (tmp @ [Some 0]) (4 + len2) (int (length data))) (\<lambda>data.
             if \<not> i32_ok (r_pos b + len) then Throw (Undefined ''signed overflow'')
             else Ok (int (length tmp), id, data,
                      b\<lparr>r_pos := (r_pos b + len) mod cb_n b,
                        remain_space := remain_space b + len\<rparr>))))))
      else Ok (0, id0, data0, b))"

definition cb_read_msg ::
    "cell list \<Rightarrow> cell list \<Rightarrow> cycle_buffer \<Rightarrow> (int \<times> cell list \<times> cell list \<times> cycle_buffer) res" where
  "cb_read_msg id0 data0 b =
     (if to_u64 (cb_n b - remain_space b) > 5 then
        res_bind
          (if r_pos b < w_pos b then
             res_bind (load_i32 (cb_buffer b) (r_pos b)) (\<lambda>len.
             if cb_n b - remain_space b \<ge> len then
               res_bind (str_resize len) (\<lambda>tmp.
               res_bind (memcpy tmp 0 (cb_buffer b) (r_pos b) len) (\<lambda>tmp. Ok (len, tmp)))
             else Ok (len, []))
           else
             res_bind (cb_len_wrapped b) (\<lambda>len.
             if cb_n b - remain_space b \<ge> len then
               res_bind (str_resize len) (\<lambda>tmp.
               if cb_n b - r_pos b \<ge> len then
                 res_bind (memcpy tmp 0 (cb_buffer b) (r_pos b) len) (\<lambda>tmp. Ok (len, tmp))
               else
                 res_bind (memcpy tmp 0 (cb_buffer b) (r_pos b) (cb_n b - r_pos b)) (\<lambda>tmp.
                 res_bind (memcpy tmp (cb_n b - r_pos b) (cb_buffer b) 0 (len - (cb_n b - r_pos b))) (\<lambda>tmp.
                 Ok (len, tmp))))
             else Ok (len, [])))
          (\<lambda>(len, tmp). cb_split_msg len tmp id0 data0 b)
      else Ok (0, id0, data0, b))"

section \<open>Invariant and abstraction\<close>

text \<open>
  The positions lie in \<open>[0, cb_n]\<close> (both may reach \<open>cb_n\<close> itself), the byte counts add up, and the
  write position is the read position advanced by the number of bytes held.
\<close>

definition cb_inv :: "cycle_buffer \<Rightarrow> bool" where
  "cb_inv b \<longleftrightarrow> 0 < cb_n b \<and> cb_n b < 2 ^ 31 \<and> int (length (cb_buffer b)) = cb_n b \<and>
     0 \<le> r_pos b \<and> r_pos b \<le> cb_n b \<and> 0 \<le> w_pos b \<and> w_pos b \<le> cb_n b \<and>
     0 \<le> remain_space b \<and> remain_space b \<le> cb_n b \<and>
     (r_pos b + cb_size b) mod cb_n b = w_pos b mod cb_n b"

definition cb_cells :: "cycle_buffer \<Rightarrow> cell list" where
  "cb_cells b = ring_window (cb_buffer b) (nat (r_pos b)) (nat (cb_size b))"

text \<open>\<open>cb_holds b q\<close>: the buffer is well formed and holds exactly the bytes \<open>q\<close>, oldest first.\<close>

definition cb_holds :: "cycle_buffer \<Rightarrow> byte list \<Rightarrow> bool" where
  "cb_holds b q \<longleftrightarrow> cb_inv b \<and> cb_cells b = map Some q"

lemma cb_invE:
  assumes "cb_inv b"
  obtains N R W U where "cb_n b = int N" "r_pos b = int R" "w_pos b = int W"
    "remain_space b = int N - int U" "cb_size b = int U" "length (cb_buffer b) = N"
    "0 < N" "N < 2 ^ 31" "R \<le> N" "W \<le> N" "U \<le> N" "(R + U) mod N = W mod N"
proof -
  define N R W U where "N = nat (cb_n b)" "R = nat (r_pos b)" "W = nat (w_pos b)" "U = nat (cb_size b)"
  have eqs: "cb_n b = int N" "r_pos b = int R" "w_pos b = int W" "cb_size b = int U"
      "remain_space b = int N - int U"
    using assms by (auto simp: N_R_W_U_def cb_inv_def cb_size_def)
  have "int ((R + U) mod N) = int (W mod N)"
    using assms by (simp add: cb_inv_def eqs zmod_int)
  then have "(R + U) mod N = W mod N" by simp
  moreover have "length (cb_buffer b) = N" "0 < N" "N < 2 ^ 31" "R \<le> N" "W \<le> N" "U \<le> N"
    using assms eqs by (auto simp: cb_inv_def cb_size_def)
  ultimately show thesis using that eqs by blast
qed

lemma cb_invI:
  assumes "cb_n b = int N" "r_pos b = int R" "w_pos b = int W" "remain_space b = int N - int U"
    "length (cb_buffer b) = N" "0 < N" "N < 2 ^ 31" "R \<le> N" "W \<le> N" "U \<le> N" "(R + U) mod N = W mod N"
  shows "cb_inv b"
proof -
  have "(int R + int U) mod int N = int W mod int N"
    using assms(11) by (metis of_nat_add zmod_int)
  then show ?thesis using assms by (simp add: cb_inv_def cb_size_def)
qed

lemma memcpy_out:
  assumes "r + k \<le> length buf" "k \<le> length data"
  shows "memcpy data 0 buf (int r) (int k) = Ok (take k (drop r buf) @ drop k data)"
  using memcpy_nat [of 0 k data r buf] assms by simp

lemma memcpy_out_wrap:
  assumes "r \<le> length buf" "length buf - r \<le> k" "k - (length buf - r) \<le> length buf" "k \<le> length data"
  shows "res_bind (memcpy data 0 buf (int r) (int (length buf) - int r)) (\<lambda>d.
      memcpy d (int (length buf) - int r) buf 0 (int k - (int (length buf) - int r)))
    = Ok (drop r buf @ take (k - (length buf - r)) buf @ drop k data)"
proof -
  define f where "f = length buf - r"
  have f: "int (length buf) - int r = int f" "int k - int f = int (k - f)" "f \<le> k" "r + f = length buf"
    using assms by (auto simp: f_def)
  have len: "length (drop r buf) = f" "length buf \<le> k + r" using assms(2) by (simp_all add: f_def)
  have "memcpy data 0 buf (int r) (int f) = Ok (drop r buf @ drop f data)"
    using memcpy_out [of r f buf data] assms f by simp
  moreover have "memcpy (drop r buf @ drop f data) (int f) buf 0 (int (k - f))
      = Ok (drop r buf @ take (k - f) buf @ drop k data)"
    using memcpy_nat [of f "k - f" "drop r buf @ drop f data" 0 buf] assms(3,4) f(3) len
    by (simp flip: f_def)
  ultimately show ?thesis by (simp add: f(1,2) flip: f_def)
qed

lemma cb_copy_out:
  assumes "cb_inv b" "int k \<le> cb_size b" "k \<le> length data"
  shows "(if r_pos b \<ge> w_pos b then
            if r_pos b \<le> cb_n b - int k then memcpy data 0 (cb_buffer b) (r_pos b) (int k)
            else let first_n = cb_n b - r_pos b in
              res_bind (memcpy data 0 (cb_buffer b) (r_pos b) first_n) (\<lambda>d.
              memcpy d first_n (cb_buffer b) 0 (int k - first_n))
          else memcpy data 0 (cb_buffer b) (r_pos b) (int k))
    = Ok (take k (cb_cells b) @ drop k data)"
  using assms(1)
proof (rule cb_invE)
  fix N R W U
  assume *: "cb_n b = int N" "r_pos b = int R" "w_pos b = int W"
    "remain_space b = int N - int U" "cb_size b = int U" "length (cb_buffer b) = N"
    "0 < N" "N < 2 ^ 31" "R \<le> N" "W \<le> N" "U \<le> N" "(R + U) mod N = W mod N"
  have k: "k \<le> U" using assms(2) * by simp
  have cells: "take k (cb_cells b) = (if R + k \<le> N then take k (drop R (cb_buffer b))
     else drop R (cb_buffer b) @ take (k - (N - R)) (cb_buffer b))"
    using ring_window_take [of R "cb_buffer b" k U] k * by (simp add: cb_cells_def)
  have nowrap: "R + k \<le> N" if "R < W"
    using ring_positions [OF *(7,9,10,11,12)] that k * by fastforce
  show ?thesis
  proof (cases "R + k \<le> N")
    case True
    then show ?thesis
      using * cells memcpy_out [of R k "cb_buffer b" data] assms(3) by (auto simp: Let_def)
  next
    case False
    then show ?thesis
      using * cells memcpy_out_wrap [of R "cb_buffer b" k data] assms(3) nowrap k
      by (auto simp: Let_def)
  qed
qed

lemma cb_read_eq:
  assumes "cb_inv b" "int k \<le> cb_size b" "k \<le> length data"
  shows "cb_read now data (int k) b = Ok (int k, take k (cb_cells b) @ drop k data,
    b\<lparr>r_pos := int (ring_adv (nat (cb_n b)) (nat (r_pos b)) k),
      remain_space := remain_space b + int k, cb_timer := timer_start now (cb_timer b)\<rparr>)"
proof -
  note out = cb_copy_out [OF assms]
  have nowait: "cb_n b - remain_space b \<ge> int k" using assms(2) by (simp add: cb_size_def)
  have fields: "0 \<le> cb_n b" "0 \<le> r_pos b" "r_pos b \<le> cb_n b"
    using assms(1) by (auto simp: cb_inv_def)
  have adv: "int (ring_adv (nat (cb_n b)) (nat (r_pos b)) k) =
      (if r_pos b \<le> cb_n b - int k then r_pos b + int k else int k - (cb_n b - r_pos b))"
    using fields by (auto simp: ring_adv_def)
  have "r_pos b \<le> cb_n b - int k" if "r_pos b < w_pos b"
    using out that by (auto simp: memcpy_def split: if_splits) (use assms(1) in \<open>auto simp: cb_inv_def\<close>)
  then show ?thesis
    using out nowait by (auto simp: cb_read_def Let_def adv res_simps simp flip: res_bind_assoc split: if_splits)
qed

lemma cb_peek_eq:
  assumes "cb_inv b" "int k \<le> cb_size b" "k \<le> length data"
  shows "cb_peek now data (int k) b =
    Ok (int k, take k (cb_cells b) @ drop k data, b\<lparr>cb_timer := timer_start now (cb_timer b)\<rparr>)"
  using cb_copy_out [OF assms] assms(2) by (simp add: cb_peek_def cb_size_def)

lemma mod_shift: "(a::nat) mod n = b mod n \<Longrightarrow> (a + k) mod n = (b + k) mod n"
  by (rule mod_add_cong) simp_all

lemma cb_inv_timer [simp]: "cb_inv (b\<lparr>cb_timer := t\<rparr>) = cb_inv b"
  by (simp add: cb_inv_def cb_size_def)

lemma cb_cells_timer [simp]: "cb_cells (b\<lparr>cb_timer := t\<rparr>) = cb_cells b"
  by (simp add: cb_cells_def cb_size_def)

lemma cb_advance:
  assumes "cb_inv b" "int k \<le> cb_size b"
  defines "b' \<equiv> b\<lparr>r_pos := int (ring_adv (nat (cb_n b)) (nat (r_pos b)) k),
                   remain_space := remain_space b + int k\<rparr>"
  shows "cb_inv b'" "cb_cells b' = drop k (cb_cells b)"
proof -
  obtain N R W U where *: "cb_n b = int N" "r_pos b = int R" "w_pos b = int W"
    "remain_space b = int N - int U" "cb_size b = int U" "length (cb_buffer b) = N"
    "0 < N" "N < 2 ^ 31" "R \<le> N" "W \<le> N" "U \<le> N" "(R + U) mod N = W mod N"
    using cb_invE [OF assms(1)] by metis
  have k: "k \<le> U" using assms(2) * by simp
  have "(ring_adv N R k + (U - k)) mod N = W mod N"
    using k * by (auto simp: ring_adv_def le_mod_geq)
  moreover have "ring_adv N R k \<le> N" using * k by (intro ring_adv_le) auto
  ultimately show "cb_inv b'"
    using * k by (intro cb_invI [of _ N "ring_adv N R k" W "U - k"]) (auto simp: b'_def)
  show "cb_cells b' = drop k (cb_cells b)"
    using * k ring_window_drop [of R "cb_buffer b" k U]
    by (simp add: cb_cells_def b'_def cb_size_def nat_diff_distrib)
qed

lemma memcpy_in:
  assumes "w + k \<le> length buf" "k \<le> length data"
  shows "memcpy buf (int w) data 0 (int k) = Ok (take w buf @ take k data @ drop (w + k) buf)"
  using memcpy_nat [of w k buf 0 data] assms by simp

lemma memcpy_in_wrap:
  assumes "w \<le> length buf" "length buf - w \<le> k" "k \<le> length buf" "k \<le> length data"
  shows "res_bind (memcpy buf (int w) data 0 (int (length buf) - int w)) (\<lambda>bf.
      memcpy bf 0 data (int (length buf) - int w) (int k - (int (length buf) - int w)))
    = Ok (take (k - (length buf - w)) (drop (length buf - w) data) @
          drop (k - (length buf - w)) (take w buf @ take (length buf - w) data))"
proof -
  define f where "f = length buf - w"
  have f: "int (length buf) - int w = int f" "int k - int f = int (k - f)" "w + f = length buf"
    using assms by (auto simp: f_def)
  have "memcpy buf (int w) data 0 (int f) = Ok (take w buf @ take f data)"
    using memcpy_in [of w f buf data] assms f by simp
  moreover have "memcpy (take w buf @ take f data) 0 data (int f) (int (k - f))
      = Ok (take (k - f) (drop f data) @ drop (k - f) (take w buf @ take f data))"
    using memcpy_nat [of 0 "k - f" "take w buf @ take f data" f data] assms f(3) by simp
  ultimately show ?thesis by (simp only: f(1,2) res_bind.simps f_def [symmetric])
qed

lemma cb_put_tail:
  assumes "cb_inv b" "int k \<le> remain_space b" "k \<le> length data"
    "w_pos b + int k \<le> cb_n b \<or> w_pos b < r_pos b"
  shows "\<exists>b'. cb_put now data (int k) b = Ok b' \<and> cb_inv b' \<and> cb_cells b' = cb_cells b @ take k data
    \<and> cb_n b' = cb_n b \<and> remain_space b' = remain_space b - int k"
proof -
  obtain N R W U where *: "cb_n b = int N" "r_pos b = int R" "w_pos b = int W"
    "remain_space b = int N - int U" "cb_size b = int U" "length (cb_buffer b) = N"
    "0 < N" "N < 2 ^ 31" "R \<le> N" "W \<le> N" "U \<le> N" "(R + U) mod N = W mod N"
    using cb_invE [OF assms(1)] by metis
  have k: "k + U \<le> N" using assms(2) * by simp
  have fit: "W + k \<le> N"
    using assms(4) ring_positions [OF *(7,9,10,11,12)] k * by fastforce
  define bf where "bf = take W (cb_buffer b) @ take k data @ drop (W + k) (cb_buffer b)"
  define b' where "b' = b\<lparr>cb_buffer := bf, w_pos := int (W + k), remain_space := remain_space b - int k,
      cb_timer := timer_start now (cb_timer b)\<rparr>"
  have "memcpy (cb_buffer b) (int W) data 0 (int k) = Ok bf"
    unfolding bf_def using * fit assms(3) by (intro memcpy_in) auto
  then have put: "cb_put now data (int k) b = Ok b'"
    using * fit by (auto simp: cb_put_def b'_def)
  have inv: "cb_inv b'"
    using * fit k assms(3) mod_shift [OF *(12), of k]
    by (intro cb_invI [of _ N R "W + k" "U + k"]) (auto simp: b'_def bf_def add.assoc)
  have "ring_window bf R (U + k) = ring_window (cb_buffer b) R U @ take k data"
  proof (cases "k = 0")
    case False
    have d: "length (take k data) = k" using assms(3) by simp
    have "W = R + U \<or> W + N = R + U"
      by (rule ring_positions [OF *(7,9,10,11,12)]) (use False fit k in auto)
    then show ?thesis
      unfolding bf_def
      using ring_window_write_tail [of W R U "take k data" "cb_buffer b"]
        ring_window_write_gap [of W "cb_buffer b" R U "take k data"] * fit k d
      by (elim disjE) simp_all
  qed (simp add: bf_def)
  then have "cb_cells b' = cb_cells b @ take k data"
    using * k by (simp add: cb_cells_def b'_def cb_size_def nat_add_distrib)
  then show ?thesis using put inv by (auto simp: b'_def)
qed

lemma cb_put_wrap:
  assumes "cb_inv b" "int k \<le> remain_space b" "k \<le> length data"
    "r_pos b \<le> w_pos b" "cb_n b < w_pos b + int k"
  shows "\<exists>b'. cb_put now data (int k) b = Ok b' \<and> cb_inv b' \<and> cb_cells b' = cb_cells b @ take k data
    \<and> cb_n b' = cb_n b \<and> remain_space b' = remain_space b - int k"
proof -
  obtain N R W U where *: "cb_n b = int N" "r_pos b = int R" "w_pos b = int W"
    "remain_space b = int N - int U" "cb_size b = int U" "length (cb_buffer b) = N"
    "0 < N" "N < 2 ^ 31" "R \<le> N" "W \<le> N" "U \<le> N" "(R + U) mod N = W mod N"
    using cb_invE [OF assms(1)] by metis
  have k: "k + U \<le> N" "R \<le> W" "N < W + k" using assms * by simp_all
  define bf where "bf = take (k - (N - W)) (drop (N - W) data) @
          drop (k - (N - W)) (take W (cb_buffer b) @ take (N - W) data)"
  define b' where "b' = b\<lparr>cb_buffer := bf, w_pos := int (W + k - N), remain_space := remain_space b - int k,
      cb_timer := timer_start now (cb_timer b)\<rparr>"
  have "res_bind (memcpy (cb_buffer b) (int W) data 0 (int N - int W)) (\<lambda>bf.
      memcpy bf 0 data (int N - int W) (int k - (int N - int W))) = Ok bf"
    unfolding bf_def using memcpy_in_wrap [of W "cb_buffer b" k data] * k assms(3) by simp
  moreover have "int (W + k - N) = int k - (int N - int W)" using k by simp
  ultimately have put: "cb_put now data (int k) b = Ok b'"
    using * k by (simp add: cb_put_def b'_def Let_def flip: res_bind_assoc)
  have lbf: "length bf = N" using * k assms(3) by (simp add: bf_def)
  have inv: "cb_inv b'"
    using * k mod_shift [OF *(12), of k] lbf
    by (intro cb_invI [of _ N R "W + k - N" "U + k"]) (auto simp: b'_def add.assoc le_mod_geq)
  have d: "length (take k data) = k" using assms(3) by simp
  have "ring_window bf R (U + k) = ring_window (cb_buffer b) R U @ take k data"
  proof (rule ring_positions [OF *(7,9,10,11,12)])
    assume "W = R + U"
    then show ?thesis
      using ring_window_write_wrap [of W R U "cb_buffer b" "take k data"] * k d
      by (simp add: bf_def drop_take min_absorb1)
  next
    assume "R = 0" "U = 0" "W = N"
    then show ?thesis using * k assms(3) by (simp add: bf_def ring_window_def)
  qed (use k *(10,11) in linarith)+
  then have "cb_cells b' = cb_cells b @ take k data"
    using * k by (simp add: cb_cells_def b'_def cb_size_def nat_add_distrib)
  then show ?thesis using put inv by (auto simp: b'_def)
qed

lemma cb_put_spec:
  assumes "cb_inv b" "int k \<le> remain_space b" "k \<le> length data"
  shows "\<exists>b'. cb_put now data (int k) b = Ok b' \<and> cb_inv b' \<and> cb_cells b' = cb_cells b @ take k data
    \<and> cb_n b' = cb_n b \<and> remain_space b' = remain_space b - int k"
  using cb_put_tail [OF assms] cb_put_wrap [OF assms] by fastforce

lemma realloc_size:
  assumes "0 < (N::nat)"
  shows "c_div (int k) (int N) = int (k div N)" "k + N < N * (k div N + 2)"
    "N * (k div N + 2) \<le> k + 2 * N"
proof -
  show "c_div (int k) (int N) = int (k div N)"
    using assms by (simp add: c_div_nonneg zdiv_int)
  have "k = N * (k div N) + k mod N" "k mod N < N" using assms by simp_all
  moreover have "N * (k div N + 2) = N * (k div N) + 2 * N" by (simp add: algebra_simps)
  ultimately show "k + N < N * (k div N + 2)" "N * (k div N + 2) \<le> k + 2 * N" by linarith+
qed

lemma cb_grow_spec:
  assumes "cb_inv b" "cb_n b \<le> int M"
  shows "\<exists>nb. cb_grow (int M) b = Ok nb \<and> length nb = M \<and> take (nat (cb_size b)) nb = cb_cells b"
proof -
  obtain N R W U where *: "cb_n b = int N" "r_pos b = int R" "w_pos b = int W"
    "remain_space b = int N - int U" "cb_size b = int U" "length (cb_buffer b) = N"
    "0 < N" "N < 2 ^ 31" "R \<le> N" "W \<le> N" "U \<le> N" "(R + U) mod N = W mod N"
    using cb_invE [OF assms(1)] by metis
  have M: "N \<le> M" using assms(2) * by simp
  let ?new = "replicate M None :: cell list"
  have cells: "cb_cells b = (if R + U \<le> N then take U (drop R (cb_buffer b))
     else drop R (cb_buffer b) @ take (U - (N - R)) (cb_buffer b))"
    using ring_window_take [of R "cb_buffer b" U U] * by (simp add: cb_cells_def ring_window_def)
  show ?thesis
  proof (cases "R < W")
    case True
    have fit: "R + U \<le> N"
      by (rule ring_positions [OF *(7,9,10,11,12)]) (use True *(10,11) in auto)
    then show ?thesis
      using memcpy_out [of R U "cb_buffer b" ?new] M * True cells by (simp add: cb_grow_def)
  next
    case False
    show ?thesis
    proof (cases "N - R < U")
      case True
      then show ?thesis
        using memcpy_out_wrap [of R "cb_buffer b" U ?new] M * False cells
        by (auto simp: cb_grow_def Let_def min_absorb1)
    next
      case nowrap: False
      have "memcpy ?new 0 (cb_buffer b) (int R) (int N - int R) =
          Ok (drop R (cb_buffer b) @ drop (N - R) ?new)"
        using memcpy_out [of R "N - R" "cb_buffer b" ?new] M * by simp
      moreover have "\<not> int U - (int N - int R) > 0" "U \<le> N - R" using nowrap * by auto
      ultimately show ?thesis using * False M cells by (simp add: cb_grow_def)
    qed
  qed
qed


lemma cb_realloc_spec:
  assumes "cb_inv b" "remain_space b < int k" "cb_n b * (int k div cb_n b + 2) < 2 ^ 31"
  shows "\<exists>b'. cb_realloc (int k) b = Ok b' \<and> cb_inv b' \<and> cb_cells b' = cb_cells b
    \<and> int k < remain_space b' \<and> cb_n b' = cb_n b * (int k div cb_n b + 2) \<and> cb_timer b' = cb_timer b"
proof -
  obtain N R W U where *: "cb_n b = int N" "r_pos b = int R" "w_pos b = int W"
    "remain_space b = int N - int U" "cb_size b = int U" "length (cb_buffer b) = N"
    "0 < N" "N < 2 ^ 31" "R \<le> N" "W \<le> N" "U \<le> N" "(R + U) mod N = W mod N"
    using cb_invE [OF assms(1)] by metis
  define M where "M = N * (k div N + 2)"
  have Meq: "int M = cb_n b * (int k div cb_n b + 2)"
    using *(1) by (simp add: M_def zdiv_int algebra_simps)
  have "int M < 2 ^ 31" using assms(3) by (simp only: Meq)
  then have "M < 2 ^ 31" by simp
  moreover have "k + N < M" using realloc_size(2) [OF *(7), of k] by (simp only: M_def)
  ultimately have M: "k + N < M" "N \<le> M" "M < 2 ^ 31" by simp_all
  have q: "cb_n b * (c_div (int k) (cb_n b) + 2) = int M" "c_div (int k) (cb_n b) = int (k div N)"
    using realloc_size [OF *(7), of k] * by (auto simp: M_def algebra_simps)
  have "1 * (k div N + 2) \<le> N * (k div N + 2)" by (rule mult_le_mono1) (use *(7) in simp)
  then have "k div N + 2 \<le> M" by (simp only: M_def mult_1)
  then have ok: "i32_ok (int (k div N) + 2)" "i32_ok (int M)"
    using M by (auto simp: i32_ok_def)
  obtain nb where nb: "cb_grow (int M) b = Ok nb" "length nb = M"
      "take (nat (cb_size b)) nb = cb_cells b"
    using cb_grow_spec [OF assms(1), of M] * M by auto
  define b' where "b' = b\<lparr>cb_n := int M, remain_space := int M - cb_size b, r_pos := 0,
                       w_pos := cb_size b, cb_buffer := nb\<rparr>"
  have "cb_realloc (int k) b = Ok b'"
    using assms(2) q ok nb(1) * by (simp add: cb_realloc_def b'_def Let_def)
  moreover have "cb_inv b'"
    using M * nb by (intro cb_invI [of _ M 0 U U]) (auto simp: b'_def)
  moreover have "cb_cells b' = cb_cells b"
  proof -
    have "cb_cells b' = take U nb"
      using nb(2) M * by (simp add: cb_cells_def b'_def cb_size_def ring_window_def)
    then show ?thesis using nb(3) * by simp
  qed
  ultimately show ?thesis using M * Meq by (auto simp: b'_def)
qed

lemma cb_put_n: "cb_put now data len b = Ok b' \<Longrightarrow> cb_n b' = cb_n b"
  by (auto simp: cb_put_def Let_def res_simps)

lemma cb_write_spec:
  assumes "cb_inv b" "k \<le> length data"
    "remain_space b < int k \<Longrightarrow> cb_n b * (int k div cb_n b + 2) < 2 ^ 31"
  shows "\<exists>b'. cb_write now data (int k) b = Ok (int k, b') \<and> cb_inv b'
    \<and> cb_cells b' = cb_cells b @ take k data
    \<and> cb_n b' = (if remain_space b < int k then cb_n b * (int k div cb_n b + 2) else cb_n b)"
proof -
  obtain b1 where b1: "cb_realloc (int k) b = Ok b1" "cb_inv b1" "cb_cells b1 = cb_cells b"
      "int k \<le> remain_space b1"
      "cb_n b1 = (if remain_space b < int k then cb_n b * (int k div cb_n b + 2) else cb_n b)"
  proof (cases "remain_space b < int k")
    case True
    then show thesis using cb_realloc_spec [OF assms(1) True assms(3) [OF True]] that by fastforce
  next
    case False
    then show thesis using that [of b] assms(1) by (simp add: cb_realloc_def)
  qed
  then show ?thesis
    using cb_put_spec [OF b1(2,4) assms(2), of now] cb_put_n by (fastforce simp: cb_write_def)
qed

section \<open>The buffer as a byte queue\<close>

lemma cb_holds_length: "cb_holds b q \<Longrightarrow> cb_size b = int (length q)"
proof -
  assume h: "cb_holds b q"
  then have "length (cb_cells b) = nat (cb_size b)"
    unfolding cb_cells_def by (intro length_ring_window) (auto simp: cb_holds_def cb_inv_def cb_size_def)
  moreover have "0 \<le> cb_size b" using h by (auto simp: cb_holds_def cb_inv_def cb_size_def)
  ultimately show ?thesis using h by (simp add: cb_holds_def)
qed

lemma cb_new_holds:
  assumes "0 < n" "n < 2 ^ 31"
  shows "\<exists>b. cb_new now n = Ok b \<and> cb_holds b []"
  using assms by (simp add: cb_new_def cb_holds_def cb_inv_def cb_size_def cb_cells_def ring_window_def)

lemma cb_reset_holds: "cb_inv b \<Longrightarrow> cb_holds (cb_reset b) []"
  by (simp add: cb_reset_def cb_holds_def cb_inv_def cb_size_def cb_cells_def ring_window_def)

text \<open>Total bytes below this bound never make \<open>realloc\<close> overflow.\<close>

definition cb_bound :: nat where
  "cb_bound = 715827882"

lemma cb_write_holds:
  assumes "cb_holds b q" "length q + length d \<le> cb_bound"
  shows "\<exists>b'. cb_write now (map Some d) (int (length d)) b = Ok (int (length d), b') \<and> cb_holds b' (q @ d)"
proof -
  have sz: "cb_size b = int (length q)" using assms(1) by (rule cb_holds_length)
  have inv: "cb_inv b" using assms(1) by (simp add: cb_holds_def)
  have "cb_n b * (int (length d) div cb_n b + 2) < 2 ^ 31" if "remain_space b < int (length d)"
  proof -
    have n: "cb_n b = int (nat (cb_n b))" "0 < nat (cb_n b)" using inv by (auto simp: cb_inv_def)
    have "int (nat (cb_n b) * (length d div nat (cb_n b) + 2)) \<le> int (length d + 2 * nat (cb_n b))"
      using realloc_size(3) [OF n(2), of "length d"] by (simp only: of_nat_le_iff)
    then have "cb_n b * (int (length d) div cb_n b + 2) \<le> int (length d) + 2 * cb_n b"
      using n by (simp add: zdiv_int algebra_simps)
    moreover have "cb_n b < int (length q) + int (length d)"
      using that sz by (simp add: cb_size_def)
    ultimately show ?thesis using assms(2) by (simp add: cb_bound_def)
  qed
  then show ?thesis
    using cb_write_spec [OF inv, of "length d" "map Some d" now] assms(1)
    by (auto simp: cb_holds_def)
qed

lemma cb_read_holds:
  assumes "cb_holds b q" "k \<le> length q" "k \<le> length data"
  shows "\<exists>b'. cb_read now data (int k) b = Ok (int k, map Some (take k q) @ drop k data, b')
    \<and> cb_holds b' (drop k q)"
proof -
  have k: "cb_inv b" "int k \<le> cb_size b" using assms cb_holds_length [OF assms(1)]
    by (auto simp: cb_holds_def)
  show ?thesis
    using cb_read_eq [OF k assms(3), of now] cb_advance [OF k] assms(1)
    by (simp add: cb_holds_def take_map drop_map)
qed

lemma cb_read_blocks: "cb_holds b q \<Longrightarrow> length q < k \<Longrightarrow> cb_read now data (int k) b = Blocks"
  using cb_holds_length [of b q] by (simp add: cb_read_def cb_size_def)

lemma cb_peek_holds:
  assumes "cb_holds b q" "k \<le> length q" "k \<le> length data"
  shows "\<exists>b'. cb_peek now data (int k) b = Ok (int k, map Some (take k q) @ drop k data, b')
    \<and> cb_holds b' q"
proof -
  have k: "cb_inv b" "int k \<le> cb_size b" using assms cb_holds_length [OF assms(1)]
    by (auto simp: cb_holds_def)
  show ?thesis
    using cb_peek_eq [OF k assms(3), of now] assms(1) by (simp add: cb_holds_def take_map)
qed

lemma cb_can_read_holds: "cb_holds b q \<Longrightarrow> cb_can_read k b \<longleftrightarrow> k \<le> int (length q)"
  using cb_holds_length [of b q] by (auto simp: cb_can_read_def cb_size_def)

lemma cb_empty_holds: "cb_holds b q \<Longrightarrow> cb_empty b \<longleftrightarrow> q = []"
  using cb_holds_length [of b q] by (auto simp: cb_empty_def cb_size_def)


text \<open>
  The interface's operations on the ring: a write of a whole byte string, and a read of \<open>k\<close>
  bytes into \<open>k\<close> cells of fresh memory.
\<close>

definition cb_put_bytes :: "int \<Rightarrow> byte list \<Rightarrow> cycle_buffer \<Rightarrow> cycle_buffer res" where
  "cb_put_bytes now d b = res_bind (cb_write now (map Some d) (int (length d)) b) (\<lambda>(_, b). Ok b)"

definition cb_get_bytes :: "int \<Rightarrow> nat \<Rightarrow> cycle_buffer \<Rightarrow> (cell list \<times> cycle_buffer) res" where
  "cb_get_bytes now k b =
     res_bind (cb_read now (replicate k None) (int k) b) (\<lambda>(_, d, b). Ok (d, b))"

interpretation cbq: byte_fifo cb_holds "cb_put_bytes now" "cb_get_bytes now"
  "\<lambda>k. cb_can_read (int k)" cb_bound
  for now
proof unfold_locales
  fix s q and d :: "byte list"
  assume "cb_holds s q" "length q + length d \<le> cb_bound"
  then show "\<exists>s'. cb_put_bytes now d s = Ok s' \<and> cb_holds s' (q @ d)"
    using cb_write_holds [of s q d now] by (auto simp: cb_put_bytes_def)
next
  fix s q and k :: nat
  assume "cb_holds s q" "k \<le> length q"
  then show "\<exists>s'. cb_get_bytes now k s = Ok (map Some (take k q), s') \<and> cb_holds s' (drop k q)"
    using cb_read_holds [of s q k "replicate k None" now] by (auto simp: cb_get_bytes_def)
qed (auto simp: cb_can_read_holds)

section \<open>Framed reads\<close>

lemma ring_window_end: "u \<le> length buf \<Longrightarrow> ring_window buf (length buf) u = ring_window buf 0 u"
  by (simp add: ring_window_def)

lemma cb_advance_mod:
  assumes "cb_inv b" "int k \<le> cb_size b"
  defines "b' \<equiv> b\<lparr>r_pos := (r_pos b + int k) mod cb_n b, remain_space := remain_space b + int k\<rparr>"
  shows "cb_inv b'" "cb_cells b' = drop k (cb_cells b)"
proof -
  obtain N R W U where *: "cb_n b = int N" "r_pos b = int R" "w_pos b = int W"
    "remain_space b = int N - int U" "cb_size b = int U" "length (cb_buffer b) = N"
    "0 < N" "N < 2 ^ 31" "R \<le> N" "W \<le> N" "U \<le> N" "(R + U) mod N = W mod N"
    using cb_invE [OF assms(1)] by metis
  have k: "k \<le> U" using assms(2) * by simp
  have r': "r_pos b' = int ((R + k) mod N)" using * by (simp add: b'_def zmod_int)
  have "((R + k) mod N + (U - k)) mod N = W mod N"
    using mod_add_left_eq [of "R + k" N "U - k"] k *(12) by simp
  then show "cb_inv b'"
    using * k r' by (intro cb_invI [of _ N "(R + k) mod N" W "U - k"]) (auto simp: b'_def less_imp_le)
  have le: "ring_adv N R k \<le> N" using * k by (intro ring_adv_le) auto
  have "(R + k) mod N = ring_adv N R k mod N"
    by (auto simp: ring_adv_def le_mod_geq)
  then have "(R + k) mod N = ring_adv N R k \<or> ring_adv N R k = N \<and> (R + k) mod N = 0"
    using le by (cases "ring_adv N R k = N") auto
  then have "ring_window (cb_buffer b) ((R + k) mod N) (U - k) = drop k (cb_cells b)"
    using ring_window_drop [of R "cb_buffer b" k U] ring_window_end [of "U - k" "cb_buffer b"] * k
    by (auto simp: cb_cells_def)
  then show "cb_cells b' = drop k (cb_cells b)"
    using * k r' nat_int [of "(R + k) mod N"]
    by (simp add: cb_cells_def b'_def cb_size_def zmod_int nat_diff_distrib)
qed

text \<open>The copy of \<open>k\<close> bytes from the read position, with the tests the framed reader uses.\<close>

lemma cb_fetch:
  assumes "cb_inv b" "int k \<le> cb_size b" "k \<le> length data"
  shows "r_pos b < w_pos b \<or> cb_n b - r_pos b \<ge> int k \<Longrightarrow>
      memcpy data 0 (cb_buffer b) (r_pos b) (int k) = Ok (take k (cb_cells b) @ drop k data)"
    and "\<not> r_pos b < w_pos b \<Longrightarrow> \<not> cb_n b - r_pos b \<ge> int k \<Longrightarrow>
      res_bind (memcpy data 0 (cb_buffer b) (r_pos b) (cb_n b - r_pos b)) (\<lambda>d.
        memcpy d (cb_n b - r_pos b) (cb_buffer b) 0 (int k - (cb_n b - r_pos b)))
      = Ok (take k (cb_cells b) @ drop k data)"
  using cb_copy_out [OF assms] by (auto simp: Let_def split: if_splits)

lemma load_i32_cells:
  assumes "4 \<le> length q"
  shows "load_i32 (map Some q @ rest) 0 = Ok (le_i32 (take 4 q))"
  using assms by (auto simp: load_i32_def take_map dest: in_set_takeD)

lemma cb_frame_len:
  assumes "cb_holds b q" "5 < length q"
  shows "(if r_pos b < w_pos b then load_i32 (cb_buffer b) (r_pos b) else cb_len_wrapped b)
    = Ok (le_i32 (take 4 q))"
proof -
  have inv: "cb_inv b" and cells: "cb_cells b = map Some q" using assms(1) by (auto simp: cb_holds_def)
  have sz: "cb_size b = int (length q)" using assms(1) by (rule cb_holds_length)
  have k4: "int 4 \<le> cb_size b" "4 \<le> length (replicate 4 None)" using sz assms(2) by auto
  note fetch = cb_fetch [OF inv k4]
  show ?thesis
  proof (cases "r_pos b < w_pos b")
    case True
    have mc: "memcpy (replicate 4 None) 0 (cb_buffer b) (r_pos b) 4 = Ok (map Some (take 4 q))"
      using fetch(1) True cells by (simp add: take_map)
    then have "0 \<le> r_pos b" "r_pos b + 4 \<le> int (length (cb_buffer b))"
        "take 4 (drop (nat (r_pos b)) (cb_buffer b)) = map Some (take 4 q)"
      by (auto simp: memcpy_def split: if_splits)
    then show ?thesis using True by (auto simp: load_i32_def)
  next
    case False
    have n: "6 \<le> cb_n b" "cb_n b < 2 ^ 31" "0 \<le> r_pos b" "r_pos b \<le> cb_n b"
      using inv sz assms(2) by (auto simp: cb_inv_def cb_size_def)
    then have "to_u64 (r_pos b) \<le> to_u64 (cb_n b - 4) \<longleftrightarrow> cb_n b - r_pos b \<ge> 4"
      by (auto simp: to_u64_def)
    then show ?thesis
      using fetch False cells load_i32_cells [of "take 4 q" "[]"] assms(2)
      by (auto simp: cb_len_wrapped_def Let_def take_map simp flip: res_bind_assoc)
  qed
qed

text \<open>
  What one framed read does, case by case, on a buffer that holds the bytes \<open>q\<close> from the read
  position \<open>r\<close> on.
\<close>

definition read_msg_spec :: "int \<Rightarrow> byte list \<Rightarrow> (nat \<times> byte list \<times> byte list) option res" where
  "read_msg_spec r q =
     (if length q \<le> 5 then Ok None
      else let len = le_i32 (take 4 q); len2 = uint (q ! 4) in
        if int (length q) < len then Ok None
        else if len < 0 then Throw LengthError
        else if len \<le> 5 then Ok None
        else if len2 = 0 then Throw LengthError
        else if len + 1 < 4 + len2 then Throw (Undefined ''memcpy'')
        else if len + 1 = 4 + len2 then Throw LengthError
        else if 2 ^ 31 \<le> r + len then Throw (Undefined ''signed overflow'')
        else Ok (Some (nat len, take (nat len2 - 1) (drop 5 q),
                       take (nat (len - 4 - len2)) (drop (nat (4 + len2)) q))))"

lemma cb_split_msg_ok:
  assumes "5 < len" "len \<le> length q" "uint (q ! 4) \<noteq> 0" "4 + uint (q ! 4) \<le> int len" "len < 2 ^ 31"
  shows "cb_split_msg (int len) (map Some (take len q)) id0 data0 b =
    (if \<not> i32_ok (r_pos b + int len) then Throw (Undefined ''signed overflow'')
     else Ok (int len, map Some (take (nat (uint (q ! 4)) - 1) (drop 5 q)),
        map Some (take (nat (int len - 4 - uint (q ! 4))) (drop (nat (4 + uint (q ! 4))) q)),
        b\<lparr>r_pos := (r_pos b + int len) mod cb_n b, remain_space := remain_space b + int len\<rparr>))"
proof -
  define m where "m = nat (uint (q ! 4))"
  have mi: "uint (q ! 4) = int m" by (simp add: m_def)
  have m: "1 \<le> m" "4 + m \<le> len" "m < 256"
    using assms uint_lt2p [of "q ! 4"] unfolding mi by simp_all
  let ?tmp = "map Some (take len q)"
  have id: "memcpy (replicate (m - 1) (Some 0)) 0 (?tmp @ [Some 0]) 5 (int (m - 1))
      = Ok (map Some (take (m - 1) (drop 5 q)))"
    using memcpy_nat [of 0 "m - 1" "replicate (m - 1) (Some 0)" 5 "?tmp @ [Some 0]"] assms m
    by (simp add: take_map drop_map take_drop min_def)
  have data: "memcpy (replicate (len - 4 - m) (Some 0)) 0 (?tmp @ [Some 0]) (4 + int m) (int (len - 4 - m))
      = Ok (map Some (take (len - 4 - m) (drop (4 + m) q)))"
    using memcpy_nat [of 0 "len - 4 - m" "replicate (len - 4 - m) (Some 0)" "4 + m" "?tmp @ [Some 0]"] assms m
    by (simp add: take_map drop_map take_drop min_def)
  have r1: "str_resize (int m - 1) = Ok (replicate (m - 1) (Some 0))"
    using m by (simp add: str_resize_def nat_diff_distrib)
  have r2: "str_resize (int len - 4 - int m) = Ok (replicate (len - 4 - m) (Some 0))"
    using m assms(5) by (simp add: str_resize_def nat_diff_distrib)
  have t4: "?tmp ! 4 = Some (q ! 4)" "length ?tmp = len" using assms by auto
  have n: "nat (4 + int m) = 4 + m" "nat (int len - 4 - int m) = len - 4 - m" using m by auto
  show ?thesis
    using assms(1) t4 unfolding cb_split_msg_def
    by (simp add: mi r1 r2 n id [simplified] data [simplified] Let_def)
qed

text \<open>
  An identifier that ends one past the frame reads the terminator of the copied string, and the
  length of the data then wraps to a value that \<open>resize\<close> refuses.
\<close>

lemma cb_split_msg_bad:
  assumes "5 < len" "len \<le> length q"
  shows "uint (q ! 4) = 0 \<Longrightarrow> cb_split_msg k (map Some (take len q)) id0 data0 b = Throw LengthError"
    and "uint (q ! 4) \<noteq> 0 \<Longrightarrow> int len + 1 < 4 + uint (q ! 4) \<Longrightarrow>
      cb_split_msg k (map Some (take len q)) id0 data0 b = Throw (Undefined ''memcpy'')"
    and "int len + 1 = 4 + uint (q ! 4) \<Longrightarrow>
      cb_split_msg (int len) (map Some (take len q)) id0 data0 b = Throw LengthError"
proof -
  let ?tmp = "map Some (take len q)"
  define u where "u = uint (q ! 4)"
  have t4: "?tmp ! 4 = Some (q ! 4)" "length ?tmp = len" using assms by auto
  have pos: "0 \<le> u" "u < 256" using uint_lt2p [of "q ! 4"] by (simp_all add: u_def)
  have rs: "str_resize (u - 1) = Ok (replicate (nat (u - 1)) (Some 0))" if "u \<noteq> 0"
    using that pos by (simp add: str_resize_def)
  show "cb_split_msg k ?tmp id0 data0 b = Throw LengthError" if "uint (q ! 4) = 0"
    using assms(1) t4 that by (simp add: cb_split_msg_def str_resize_def)
  show "cb_split_msg k ?tmp id0 data0 b = Throw (Undefined ''memcpy'')"
    if "uint (q ! 4) \<noteq> 0" "int len + 1 < 4 + uint (q ! 4)"
  proof -
    have "memcpy (replicate (nat (u - 1)) (Some 0)) 0 (?tmp @ [Some 0]) 5 (u - 1)
        = Throw (Undefined ''memcpy'')"
      using t4(2) that(2) by (simp add: memcpy_def u_def)
    then show ?thesis
      using assms(1) t4 rs pos that(1) by (simp add: cb_split_msg_def Let_def flip: u_def)
  qed
  show "cb_split_msg (int len) ?tmp id0 data0 b = Throw LengthError" if "int len + 1 = 4 + uint (q ! 4)"
  proof -
    have ul: "u = int len - 3" using that by (simp add: u_def)
    have "memcpy (replicate (len - 4) (Some 0)) 0 (?tmp @ [Some 0]) 5 (int (len - 4))
        = Ok (take (len - 4) (drop 5 (?tmp @ [Some 0])))"
      using memcpy_nat [of 0 "len - 4" "replicate (len - 4) (Some 0)" 5 "?tmp @ [Some 0]"] assms by simp
    moreover have "u - 1 = int (len - 4)" using ul assms(1) by simp
    ultimately obtain id where id: "memcpy (replicate (nat (u - 1)) (Some 0)) 0 (?tmp @ [Some 0]) 5 (u - 1) = Ok id"
      by simp
    have "str_resize (int len - 4 - u) = Throw LengthError" using ul by (simp add: str_resize_def)
    then show ?thesis
      using assms(1) t4 rs id ul pos by (simp add: cb_split_msg_def Let_def flip: u_def)
  qed
qed

lemma cb_read_msg_short:
  assumes "cb_holds b q" "length q \<le> 5"
  shows "cb_read_msg id0 data0 b = Ok (0, id0, data0, b)"
  using cb_holds_length [OF assms(1)] assms(2) by (simp add: cb_read_msg_def cb_size_def)

lemma cb_read_msg_long:
  assumes "cb_holds b q" "5 < length q"
  defines "len \<equiv> le_i32 (take 4 q)"
  shows "cb_read_msg id0 data0 b =
    (if int (length q) < len then cb_split_msg len [] id0 data0 b
     else if len < 0 then Throw LengthError
     else cb_split_msg len (map Some (take (nat len) q)) id0 data0 b)"
proof -
  have inv: "cb_inv b" and cells: "cb_cells b = map Some q" using assms(1) by (auto simp: cb_holds_def)
  have sz: "cb_n b - remain_space b = int (length q)"
    using cb_holds_length [OF assms(1)] by (simp add: cb_size_def)
  have big: "to_u64 (int (length q)) > 5"
    using inv assms(2) sz by (simp add: cb_inv_def)
  note flen = cb_frame_len [OF assms(1,2), folded len_def]
  show ?thesis
  proof (cases "0 \<le> len \<and> len \<le> int (length q)")
    case True
    define k where "k = nat len"
    have k: "len = int k" "k \<le> length q" using True by (auto simp: k_def)
    have rs: "str_resize (int k) = Ok (replicate k (Some 0))"
      using k inv sz by (simp add: str_resize_def cb_inv_def)
    have kk: "int k \<le> cb_size b" "k \<le> length (replicate k (Some (0::byte)))"
      using sz k by (auto simp: cb_size_def)
    show ?thesis
      using flen cb_fetch [OF inv kk] True
      by (auto simp: cb_read_msg_def big sz k(1) rs cells take_map simp flip: res_bind_assoc
          split: if_splits)
  next
    case False
    then show ?thesis
      using flen by (auto simp: cb_read_msg_def big sz str_resize_def)
  qed
qed


lemma cb_read_msg_eq:
  assumes "cb_holds b q"
  shows "case read_msg_spec (r_pos b) q of
      Ok None \<Rightarrow> cb_read_msg id0 data0 b = Ok (0, id0, data0, b)
    | Ok (Some (len, i, d)) \<Rightarrow> \<exists>b'. cb_read_msg id0 data0 b = Ok (int len, map Some i, map Some d, b')
          \<and> cb_holds b' (drop len q)
    | Throw e \<Rightarrow> cb_read_msg id0 data0 b = Throw e
    | Blocks \<Rightarrow> False"
proof (cases "length q \<le> 5")
  case True
  then show ?thesis using cb_read_msg_short [OF assms] by (simp add: read_msg_spec_def)
next
  case False
  define len where "len = le_i32 (take 4 q)"
  note long = cb_read_msg_long [OF assms, of id0 data0, folded len_def]
  have inv: "cb_inv b" using assms by (simp add: cb_holds_def)
  have sz: "cb_size b = int (length q)" using assms by (rule cb_holds_length)
  show ?thesis
  proof (cases "5 < len \<and> len \<le> int (length q)")
    case True
    define k where "k = nat len"
    have k: "len = int k" "5 < k" "k \<le> length q" "k < 2 ^ 31"
      using True inv sz by (auto simp: k_def cb_inv_def cb_size_def)
    have "cb_holds (b\<lparr>r_pos := (r_pos b + int k) mod cb_n b, remain_space := remain_space b + int k\<rparr>)
        (drop k q)"
      using cb_advance_mod [OF inv, of k] assms k sz by (simp add: cb_holds_def drop_map)
    moreover have "i32_ok (r_pos b + int k) \<longleftrightarrow> \<not> 2 ^ 31 \<le> r_pos b + int k"
      using inv by (auto simp: i32_ok_def cb_inv_def)
    ultimately show ?thesis
      using long False k cb_split_msg_ok [OF k(2,3), of id0 data0 b] cb_split_msg_bad [OF k(2,3)]
        uint_ge_0 [of "q ! 4"]
      by (auto simp: read_msg_spec_def Let_def len_def [symmetric])
  next
    case bad: False
    then show ?thesis
      using long False by (auto simp: read_msg_spec_def Let_def len_def [symmetric] cb_split_msg_def)
  qed
qed

definition i32_bytes :: "int \<Rightarrow> byte list" where
  "i32_bytes v = map (\<lambda>i. word_of_int (v div 2 ^ (8 * i))) [0..<4]"

definition frame :: "byte list \<Rightarrow> byte list \<Rightarrow> byte list" where
  "frame i d = i32_bytes (int (5 + length i + length d)) @ word_of_nat (length i + 1) # i @ d"

lemma length_i32_bytes [simp]: "length (i32_bytes v) = 4"
  by (simp add: i32_bytes_def)

lemma uint_byte_of_nat: "m < 256 \<Longrightarrow> uint (word_of_nat m :: byte) = int m"
  by (simp add: unsigned_of_nat take_bit_nat_def)

lemma base256_digits:
  fixes v a b c :: int
  assumes "v = a * 256 + r0" "a = b * 256 + r1" "b = c * 256 + r2"
  shows "r0 + r1 * 256 + r2 * 65536 + c * 16777216 = v"
  using assms by simp

lemma le_i32_bytes:
  assumes "0 \<le> v" "v < 2 ^ 31"
  shows "le_i32 (i32_bytes v) = v"
proof -
  have "(\<Sum>i<4. uint (i32_bytes v ! i) * 2 ^ (8 * i)) =
      v mod 256 + (v div 256 mod 256) * 256 + (v div 65536 mod 256) * 65536 + (v div 16777216 mod 256) * 16777216"
    by (simp add: i32_bytes_def eval_nat_numeral uint_word_of_int)
  also have "\<dots> = v"
  proof -
    have "v div 65536 = v div 256 div 256" "v div 16777216 = v div 256 div 256 div 256"
      using zdiv_zmult2_eq [of 256 v 256] zdiv_zmult2_eq [of 256 v 65536]
        zdiv_zmult2_eq [of 256 "v div 256" 256] by simp_all
    moreover have "v div 16777216 mod 256 = v div 16777216" using assms by simp
    ultimately show ?thesis
      using base256_digits [OF div_mult_mod_eq [of v 256, symmetric]
          div_mult_mod_eq [of "v div 256" 256, symmetric]
          div_mult_mod_eq [of "v div 256 div 256" 256, symmetric]] by simp
  qed
  finally show ?thesis using assms by (simp add: le_i32_def i32_ok_def)
qed

lemma read_msg_spec_frame:
  assumes "length i \<le> 254" "0 < length i + length d" "0 \<le> r" "r + int (5 + length i + length d) < 2 ^ 31"
  shows "read_msg_spec r (frame i d @ rest) = Ok (Some (5 + length i + length d, i, d))"
proof -
  let ?q = "frame i d @ rest"
  have t4: "take 4 ?q = i32_bytes (int (5 + length i + length d))" by (simp add: frame_def)
  have n4: "?q ! 4 = word_of_nat (length i + 1)" by (simp add: frame_def nth_append)
  have u: "uint (?q ! 4) = int (length i + 1)"
    unfolding n4 by (rule uint_byte_of_nat) (use assms(1) in simp)
  have "le_i32 (take 4 ?q) = int (5 + length i + length d)"
    unfolding t4 using assms(3,4) by (intro le_i32_bytes) auto
  moreover have "drop 5 ?q = i @ d @ rest" "drop (5 + length i) ?q = d @ rest"
    by (simp_all add: frame_def)
  ultimately show ?thesis
    using assms u by (simp add: read_msg_spec_def Let_def nat_add_distrib) (cases i; simp add: frame_def)
qed

section \<open>Properties\<close>

text \<open>
  C4. The ring buffer implements a byte queue. From a fresh buffer of any legal size, whatever
  the interleaving of writes and guarded reads, every operation succeeds and the reads return
  what a plain list of bytes, appended to at the back and consumed at the front, would return:
  no byte is lost, repeated, reordered or read before it was written, through wrap-around and
  reallocation, as long as the bytes written stay under a third of the \<open>int32_t\<close> range.
\<close>

theorem cb_refines_byte_queue:
  assumes "0 < n" "n < 2 ^ 31" "sum_list (map put_size xs) \<le> cb_bound"
  shows "\<exists>b b'. cb_new t0 n = Ok b \<and>
    run_steps (fifo_step (cb_put_bytes now) (cb_get_bytes now) (\<lambda>k. cb_can_read (int k))) xs b
      = Ok (map (map Some) (fst (spec_run xs [])), b') \<and>
    cb_holds b' (snd (spec_run xs []))"
  using cb_new_holds [OF assms(1,2), of t0] cbq.run_refines [of _ "[]" xs now] assms(3) by auto

theorem cb_refines_byte_queue_witness:
  "\<exists>b b'. cb_new 0 3 = Ok b \<and>
    run_steps (fifo_step (cb_put_bytes 1) (cb_get_bytes 1) (\<lambda>k. cb_can_read (int k)))
        [Put [1, 2], Get 1, Put [3, 4], Get 2, Put [5, 6, 7, 8], Get 5] b
      = Ok ([[Some 1], [Some 2, Some 3], [Some 4, Some 5, Some 6, Some 7, Some 8]], b') \<and> cb_holds b' []"
proof -
  let ?xs = "[Put [1, 2], Get 1, Put [3, 4], Get 2, Put [5, 6, 7, 8], Get 5]"
  have "spec_run ?xs [] = ([[1], [2, 3], [4, 5, 6, 7, 8]], [])" by code_simp
  moreover have "sum_list (map put_size ?xs) \<le> cb_bound" by (simp add: cb_bound_def)
  ultimately show ?thesis using cb_refines_byte_queue [of 3 ?xs 0 1] by simp
qed

text \<open>
  A writer never waits. After \<open>realloc\<close> the wait of \<open>write\<close> finds its condition true, for
  every well-formed buffer and every length, so the branch the source marks as never entered
  is indeed unreachable.
\<close>

lemma cb_write_never_blocks:
  assumes "cb_inv b"
  shows "cb_write now data len b \<noteq> Blocks"
proof -
  have "remain_space b' \<ge> len" if "cb_realloc len b = Ok b'" for b'
  proof (cases "remain_space b < len")
    case True
    define k where "k = nat len"
    have k: "len = int k" "remain_space b < int k" using True assms by (auto simp: k_def cb_inv_def)
    have n: "0 < cb_n b" using assms by (simp add: cb_inv_def)
    have "cb_n b * (int k div cb_n b + 2) < 2 ^ 31"
      using that True n k by (auto simp: cb_realloc_def Let_def i32_ok_def c_div_nonneg split: if_splits)
    then show ?thesis using cb_realloc_spec [OF assms k(2)] that k(1) by auto
  next
    case False
    then show ?thesis using that by (simp add: cb_realloc_def)
  qed
  moreover have "cb_realloc len b \<noteq> Blocks"
    by (auto simp: cb_realloc_def cb_grow_def Let_def res_simps)
  moreover have "cb_put now data len b' \<noteq> Blocks" for b'
    by (auto simp: cb_put_def Let_def res_simps)
  ultimately show ?thesis by (auto simp: cb_write_def res_simps)
qed

lemma cb_new_inv: "0 < n \<Longrightarrow> n < 2 ^ 31 \<Longrightarrow> cb_new now n = Ok b \<Longrightarrow> cb_inv b"
  using cb_new_holds [of n now] by (auto simp: cb_holds_def)

definition small_buffer :: cycle_buffer where
  "small_buffer = (case cb_new 0 8 of Ok b \<Rightarrow> b)"

lemma small_buffer_new: "cb_new 0 8 = Ok small_buffer"
  by (simp add: small_buffer_def cb_new_def)

lemma small_buffer_holds: "cb_holds small_buffer []"
  using cb_new_holds [of 8 0] by (simp add: small_buffer_new)

lemma cb_write_never_blocks_example: "cb_write 1 (replicate 100 (Some 7)) 100 small_buffer \<noteq> Blocks"
  by (rule cb_write_never_blocks) (use small_buffer_holds in \<open>simp add: cb_holds_def\<close>)

definition abc_buffer :: cycle_buffer where
  "abc_buffer = (case cb_write 1 [Some 97, Some 98, Some 99] 3 small_buffer of Ok (_, b) \<Rightarrow> b)"

lemma abc_buffer_holds: "cb_holds abc_buffer [97, 98, 99]"
  using cb_write_holds [OF small_buffer_holds, of "[97, 98, 99]" 1]
  by (auto simp: cb_bound_def abc_buffer_def)

lemma abc_buffer_sizes: "cb_n abc_buffer = 8" "remain_space abc_buffer = 5"
  by (simp_all add: abc_buffer_def small_buffer_def cb_new_def cb_write_def cb_realloc_def cb_put_def
      memcpy_def)

lemma cb_grown_size:
  assumes "cb_inv b"
  shows "2 * cb_n b \<le> cb_n b * (int k div cb_n b + 2)"
    "cb_n b * (int k div cb_n b + 2) \<le> 2 * cb_n b + int k"
proof -
  have n: "0 < cb_n b" using assms by (simp add: cb_inv_def)
  then have "0 \<le> cb_n b * (int k div cb_n b)" by (simp add: pos_imp_zdiv_nonneg_iff)
  moreover have "cb_n b * (int k div cb_n b) \<le> int k"
    using n mult_div_mod_eq [of "cb_n b" "int k"] pos_mod_sign [OF n, of "int k"] by linarith
  ultimately show "2 * cb_n b \<le> cb_n b * (int k div cb_n b + 2)"
    "cb_n b * (int k div cb_n b + 2) \<le> 2 * cb_n b + int k" by (simp_all add: algebra_simps)
qed

lemma cb_write_overflow:
  assumes "cb_inv b" "remain_space b < len" "2 ^ 31 \<le> cb_n b * (len div cb_n b + 2)"
  shows "cb_write now data len b = Throw (Undefined ''signed overflow'')"
proof -
  have "0 < cb_n b" "0 \<le> len" using assms(1,2) by (auto simp: cb_inv_def)
  then show ?thesis
    using assms(2,3) by (simp add: cb_write_def cb_realloc_def Let_def c_div_nonneg i32_ok_def)
qed

text \<open>
  C5. A write grows the buffer exactly as the comment in \<open>realloc\<close> says, or overflows. On a
  buffer that holds \<open>q\<close>, data that fits in the free space leaves the size alone. Data that does
  not fit gives the size \<open>n_ * (length / n_ + 2)\<close>, at least twice the old one and at most
  \<open>2 * n_ + length\<close>, as long as that is below \<open>2^31\<close>; either way the write returns the length and
  the data follows the old content. When the new size reaches \<open>2^31\<close> the multiplication is a
  signed overflow and the write has no defined behaviour, although the bytes themselves may fit.
\<close>

theorem cb_write_growth:
  assumes "cb_holds b q"
  shows "let len = int (length d); new_n = cb_n b * (len div cb_n b + 2) in
    2 * cb_n b \<le> new_n \<and> new_n \<le> 2 * cb_n b + len \<and>
    (if remain_space b < len \<and> 2 ^ 31 \<le> new_n
     then cb_write now (map Some d) len b = Throw (Undefined ''signed overflow'')
     else \<exists>b'. cb_write now (map Some d) len b = Ok (len, b') \<and> cb_holds b' (q @ d)
       \<and> cb_n b' = (if remain_space b < len then new_n else cb_n b))"
proof -
  have inv: "cb_inv b" and cells: "cb_cells b = map Some q" using assms by (auto simp: cb_holds_def)
  have size: "2 * cb_n b \<le> cb_n b * (int (length d) div cb_n b + 2)"
      "cb_n b * (int (length d) div cb_n b + 2) \<le> 2 * cb_n b + int (length d)"
    using cb_grown_size [OF inv, of "length d"] by auto
  show ?thesis
  proof (cases "remain_space b < int (length d) \<and> 2 ^ 31 \<le> cb_n b * (int (length d) div cb_n b + 2)")
    case True
    then show ?thesis using cb_write_overflow [OF inv] size by (simp add: Let_def)
  next
    case False
    then obtain b' where "cb_write now (map Some d) (int (length d)) b = Ok (int (length d), b')" "cb_inv b'"
        "cb_cells b' = cb_cells b @ map Some d"
        "cb_n b' = (if remain_space b < int (length d)
                    then cb_n b * (int (length d) div cb_n b + 2) else cb_n b)"
      using cb_write_spec [OF inv, of "length d" "map Some d" now] by auto
    then show ?thesis using False size cells by (auto simp: Let_def cb_holds_def)
  qed
qed

theorem cb_write_growth_witness:
  "(\<exists>b'. cb_write 2 (map Some (replicate 20 7)) 20 abc_buffer = Ok (20, b')
      \<and> cb_holds b' ([97, 98, 99] @ replicate 20 7) \<and> cb_n b' = 32) \<and>
   cb_write 2 (map Some (replicate 2147483640 7)) 2147483640 abc_buffer = Throw (Undefined ''signed overflow'')"
  using cb_write_growth [OF abc_buffer_holds, of "replicate 20 7" 2]
    cb_write_growth [OF abc_buffer_holds, of "replicate 2147483640 7" 2]
  by (simp add: abc_buffer_sizes)

text \<open>
  C6. Peeking shows exactly what the next read returns, and takes nothing: on a buffer that holds
  \<open>q\<close>, \<open>peek\<close> of \<open>k\<close> available bytes fills the caller's memory with the first \<open>k\<close> of them,
  leaves the rest of that memory alone and leaves the buffer holding \<open>q\<close>; the read that
  follows returns the same bytes and leaves the remaining ones.
\<close>

theorem cb_peek_then_read:
  assumes "cb_holds b q" "k \<le> length q" "k \<le> length data"
  shows "\<exists>b1 b2. cb_peek t1 data (int k) b = Ok (int k, map Some (take k q) @ drop k data, b1) \<and>
    cb_holds b1 q \<and>
    cb_read t2 data (int k) b1 = Ok (int k, map Some (take k q) @ drop k data, b2) \<and>
    cb_holds b2 (drop k q)"
  using cb_peek_holds [OF assms, of t1] cb_read_holds [OF _ assms(2,3), of _ t2] by blast

theorem cb_peek_then_read_witness:
  "\<exists>b1 b2. cb_peek 5 [None, None, None, None] 2 abc_buffer = Ok (2, [Some 97, Some 98, None, None], b1) \<and>
    cb_holds b1 [97, 98, 99] \<and>
    cb_read 6 [None, None, None, None] 2 b1 = Ok (2, [Some 97, Some 98, None, None], b2) \<and>
    cb_holds b2 [99]"
  using cb_peek_then_read [OF abc_buffer_holds, of 2 "[None, None, None, None]" 5 6]
  by (simp add: eval_nat_numeral)

text \<open>
  C7. The framed read of \<open>read(string&, string&)\<close> does exactly what the frame says, on every input.
  With at most five bytes, with an incomplete frame or with a frame length of at most five it
  returns 0 and changes nothing. A negative length, a zero identifier length or an identifier
  that ends one byte past the frame raises \<open>length_error\<close>; an identifier that reaches further
  reads outside the copied frame, which is undefined; a read position that the frame length takes
  to \<open>2^31\<close> is a signed overflow. Otherwise the read returns the identifier and the data of the
  frame and removes exactly the frame. It never blocks.
\<close>

theorem cb_read_msg_spec:
  assumes "cb_holds b q"
  shows "case read_msg_spec (r_pos b) q of
      Ok None \<Rightarrow> cb_read_msg id0 data0 b = Ok (0, id0, data0, b)
    | Ok (Some (len, i, d)) \<Rightarrow> \<exists>b'. cb_read_msg id0 data0 b = Ok (int len, map Some i, map Some d, b')
          \<and> cb_holds b' (drop len q)
    | Throw e \<Rightarrow> cb_read_msg id0 data0 b = Throw e
    | Blocks \<Rightarrow> False"
  using assms by (rule cb_read_msg_eq)

definition msg_buffer :: "byte list \<Rightarrow> cycle_buffer" where
  "msg_buffer q = (case cb_write 1 (map Some q) (int (length q)) small_buffer of Ok (_, b) \<Rightarrow> b)"

lemma msg_buffer_holds: "length q \<le> cb_bound \<Longrightarrow> cb_holds (msg_buffer q) q"
  using cb_write_holds [OF small_buffer_holds, of q 1] by (auto simp: msg_buffer_def)

theorem cb_read_msg_spec_witness:
  "cb_read_msg [] [] (msg_buffer [6, 0, 0, 0, 9, 65]) = Throw (Undefined ''memcpy'') \<and>
   cb_read_msg [] [] (msg_buffer [6, 0, 0, 0, 3, 65]) = Throw LengthError \<and>
   (\<exists>b'. cb_read_msg [] [] (msg_buffer [6, 0, 0, 0, 2, 65, 66]) = Ok (6, [Some 65], [], b') \<and> cb_holds b' [66])"
proof -
  have "read_msg_spec (r_pos (msg_buffer [6, 0, 0, 0, 9, 65])) [6, 0, 0, 0, 9, 65] = Throw (Undefined ''memcpy'')"
    "read_msg_spec (r_pos (msg_buffer [6, 0, 0, 0, 3, 65])) [6, 0, 0, 0, 3, 65] = Throw LengthError"
    "read_msg_spec (r_pos (msg_buffer [6, 0, 0, 0, 2, 65, 66])) [6, 0, 0, 0, 2, 65, 66] = Ok (Some (6, [65], []))"
    by code_simp+
  then show ?thesis
    using cb_read_msg_spec [OF msg_buffer_holds, of "[6, 0, 0, 0, 9, 65]" "[]" "[]"]
      cb_read_msg_spec [OF msg_buffer_holds, of "[6, 0, 0, 0, 3, 65]" "[]" "[]"]
      cb_read_msg_spec [OF msg_buffer_holds, of "[6, 0, 0, 0, 2, 65, 66]" "[]" "[]"]
    by (simp add: cb_bound_def)
qed

text \<open>
  C8. Frames round-trip. A buffer whose oldest bytes are a frame with an identifier of at most
  254 bytes and a non-empty body gives back that identifier and data, and what is left in the
  buffer is what followed the frame. The read position plus the frame length has to stay below
  \<open>2^31\<close>; every buffer of fewer than \<open>2^30\<close> bytes guarantees it.
\<close>

theorem cb_frame_roundtrip:
  assumes "cb_holds b (frame i d @ rest)" "length i \<le> 254" "0 < length i + length d"
    "r_pos b + int (5 + length i + length d) < 2 ^ 31 \<or> cb_n b < 2 ^ 30"
  shows "\<exists>b'. cb_read_msg id0 data0 b = Ok (int (5 + length i + length d), map Some i, map Some d, b')
    \<and> cb_holds b' rest"
proof -
  have len: "length (frame i d) = 5 + length i + length d" by (simp add: frame_def)
  have r: "0 \<le> r_pos b" "r_pos b \<le> cb_n b" "int (5 + length i + length d) \<le> cb_n b"
    using assms(1) cb_holds_length [OF assms(1)] len by (auto simp: cb_holds_def cb_inv_def cb_size_def)
  then have "r_pos b + int (5 + length i + length d) < 2 ^ 31" using assms(4) by auto
  moreover have "drop (5 + length i + length d) (frame i d @ rest) = rest" using len by simp
  ultimately show ?thesis
    using cb_read_msg_eq [OF assms(1), of id0 data0] r(1)
    by (simp add: read_msg_spec_frame [OF assms(2,3)])
qed

lemma msg_buffer_frame: "cb_holds (msg_buffer (frame [65] [66, 67] @ [9])) (frame [65] [66, 67] @ [9])"
  by (rule msg_buffer_holds) (simp add: frame_def cb_bound_def)

lemma msg_buffer_small: "cb_n (msg_buffer (frame [65] [66, 67] @ [9])) < 2 ^ 30"
proof -
  have "length (frame [65] [66, 67] @ [9]) = 9" by (simp add: frame_def)
  then obtain b' where "cb_write 1 (map Some (frame [65] [66, 67] @ [9])) 9 small_buffer = Ok (9, b')"
      "cb_n b' = 24"
    using cb_write_spec [of small_buffer 9 "map Some (frame [65] [66, 67] @ [9])" 1] small_buffer_holds
    by (auto simp: cb_holds_def small_buffer_def cb_new_def)
  then show ?thesis by (simp add: msg_buffer_def frame_def)
qed

theorem cb_frame_roundtrip_witness:
  "\<exists>b'. cb_read_msg [] [] (msg_buffer (frame [65] [66, 67] @ [9])) = Ok (8, [Some 65], [Some 66, Some 67], b')
    \<and> cb_holds b' [9]"
  using cb_frame_roundtrip [OF msg_buffer_frame, of "[]" "[]"] msg_buffer_small by simp

end
