(* ===== verification/Mailbox.thy ===== *)
theory Mailbox
  imports Fifo
begin

text \<open>
  The contract of a store of received messages, keyed by message identifier: what the receiver of
  a channel relies on, whichever build of \<open>ClientConnection\<close> is behind it. \<open>pending c m\<close> are the
  units (whole messages, or single bytes) stored under \<open>m\<close> and not yet received, oldest first;
  \<open>units\<close> cuts a message into units, \<open>flat\<close> puts units back into bytes, \<open>fits\<close> says that the
  store is guaranteed to hold them, \<open>room\<close> that the caller's memory can take what a receive may
  return. \<open>wr\<close> is a delivery, \<open>rd\<close> one attempt to receive.
\<close>

datatype mail_op = Deliver string "byte list" | Receive string int "cell list"

definition mail_step ::
    "(string \<Rightarrow> byte list \<Rightarrow> 'c \<Rightarrow> 'c res) \<Rightarrow>
     (string \<Rightarrow> int \<Rightarrow> cell list \<Rightarrow> 'c \<Rightarrow> (int \<times> cell list \<times> 'c) option res) \<Rightarrow>
     mail_op \<Rightarrow> 'c \<Rightarrow> ((string \<times> cell list) list \<times> 'c) res" where
  "mail_step wr rd x c =
     (case x of
        Deliver m d \<Rightarrow> res_bind (wr m d c) (\<lambda>c. Ok ([], c))
      | Receive m len data \<Rightarrow>
          res_bind (rd m len data c) (\<lambda>r.
          case r of None \<Rightarrow> Ok ([], c) | Some (k, data, c) \<Rightarrow> Ok ([(m, take (nat k) data)], c)))"

text \<open>Everything delivered under \<open>m\<close>, and everything received under \<open>m\<close>, in order.\<close>

fun delivered :: "string \<Rightarrow> mail_op list \<Rightarrow> byte list list" where
  "delivered m [] = []"
| "delivered m (Deliver m' d # xs) = (if m' = m then d # delivered m xs else delivered m xs)"
| "delivered m (Receive _ _ _ # xs) = delivered m xs"

definition received :: "string \<Rightarrow> (string \<times> cell list) list \<Rightarrow> cell list" where
  "received m os = concat (map snd (filter (\<lambda>(m', _). m' = m) os))"

lemma received_Nil [simp]: "received m [] = []"
  by (simp add: received_def)

lemma received_append: "received m (xs @ ys) = received m xs @ received m ys"
  by (simp add: received_def)

lemma received_single: "received m [(m', d)] = (if m' = m then d else [])"
  by (simp add: received_def)

locale mailbox =
  fixes inv :: "'c \<Rightarrow> bool"
    and pending :: "'c \<Rightarrow> string \<Rightarrow> 'u list"
    and wr :: "string \<Rightarrow> byte list \<Rightarrow> 'c \<Rightarrow> 'c res"
    and rd :: "string \<Rightarrow> int \<Rightarrow> cell list \<Rightarrow> 'c \<Rightarrow> (int \<times> cell list \<times> 'c) option res"
    and units :: "byte list \<Rightarrow> 'u list"
    and flat :: "'u list \<Rightarrow> byte list"
    and fits :: "'u list \<Rightarrow> bool"
    and room :: "'u list \<Rightarrow> int \<Rightarrow> cell list \<Rightarrow> bool"
  assumes flat_append: "flat (us @ vs) = flat us @ flat vs"
    and flat_units: "flat (units d) = d"
    and fits_split: "fits (us @ vs) \<Longrightarrow> fits us \<and> fits vs"
    and room_split: "room (us @ vs) len data \<Longrightarrow> room us len data \<and> room vs len data"
    and rd_total: "inv c \<Longrightarrow> room (pending c m) len data \<Longrightarrow> \<exists>r. rd m len data c = Ok r"
    and wr_law: "inv c \<Longrightarrow> fits (pending c m @ units d) \<Longrightarrow>
      \<exists>c'. wr m d c = Ok c' \<and> inv c' \<and> pending c' = (pending c)(m := pending c m @ units d)"
    and rd_law: "inv c \<Longrightarrow> rd m len data c = Ok (Some (k, data', c')) \<Longrightarrow>
      inv c' \<and> (\<exists>us. pending c m = us @ pending c' m \<and> k = int (length (flat us)) \<and>
        data' = map Some (flat us) @ drop (nat k) data) \<and> (\<forall>m'. m' \<noteq> m \<longrightarrow> pending c' m' = pending c m')"
begin

lemma flat_Nil: "flat [] = []"
  using flat_append [of "[]" "[]"] by simp

lemma step_conserves:
  assumes "inv c" "mail_step wr rd x c = Ok (os, c')"
    "\<And>m. fits (pending c m @ concat (map units (delivered m (x # xs))))"
  shows "inv c' \<and> (\<forall>m. received m os @ map Some (flat (pending c' m))
      = map Some (flat (pending c m @ concat (map units (delivered m [x])))))
    \<and> (\<forall>m. fits (pending c' m @ concat (map units (delivered m xs))))"
proof (cases x)
  case (Deliver m d)
  have "fits (pending c m @ units d)"
    using assms(3) [of m] fits_split [of "pending c m @ units d"] by (simp add: Deliver)
  then have "inv c'" "os = []" "pending c' = (pending c)(m := pending c m @ units d)"
    using wr_law [OF assms(1), of m d] assms(2) by (auto simp: mail_step_def Deliver)
  moreover have "fits (((pending c)(m := pending c m @ units d)) m' @ concat (map units (delivered m' xs)))" for m'
    using assms(3) [of m'] by (cases "m' = m") (auto simp: Deliver)
  ultimately show ?thesis by (auto simp: Deliver)
next
  case (Receive m len data)
  then consider "os = []" "c' = c"
    | k data' where "rd m len data c = Ok (Some (k, data', c'))" "os = [(m, take (nat k) data')]"
    using assms(2) by (auto simp: mail_step_def res_bind_Ok_iff split: option.splits)
  then show ?thesis
  proof cases
    case 1
    then show ?thesis using assms(1,3) by (auto simp: Receive)
  next
    case 2
    obtain us where us: "inv c'" "pending c m = us @ pending c' m" "k = int (length (flat us))"
        "data' = map Some (flat us) @ drop (nat k) data" "\<And>m'. m' \<noteq> m \<Longrightarrow> pending c' m' = pending c m'"
      using rd_law [OF assms(1) 2(1)] by auto
    have "fits (pending c' m' @ concat (map units (delivered m' xs)))" for m'
      using assms(3) [of m'] us(2,5) fits_split [of us "pending c' m @ concat (map units (delivered m xs))"]
      by (cases "m' = m") (auto simp: Receive)
    then show ?thesis
      using us by (auto simp: 2(2) received_single flat_append Receive)
  qed
qed

lemma step_pending:
  assumes "inv c" "mail_step wr rd x c = Ok (os, c')"
    "\<And>m. fits (pending c m @ concat (map units (delivered m (x # xs))))"
  shows "\<exists>us. pending c m @ concat (map units (delivered m (x # xs)))
      = us @ pending c' m @ concat (map units (delivered m xs))"
proof (cases x)
  case (Deliver m1 d)
  have "fits (pending c m1 @ units d)"
    using assms(3) [of m1] fits_split [of "pending c m1 @ units d"] by (simp add: Deliver)
  then have "pending c' = (pending c)(m1 := pending c m1 @ units d)"
    using wr_law [OF assms(1), of m1 d] assms(2) by (auto simp: mail_step_def Deliver)
  then show ?thesis by (auto simp: Deliver)
next
  case (Receive m1 len data)
  then consider "c' = c" | k data' where "rd m1 len data c = Ok (Some (k, data', c'))"
    using assms(2) by (auto simp: mail_step_def res_bind_Ok_iff split: option.splits)
  then show ?thesis
  proof cases
    case 2
    then show ?thesis
      using rd_law [OF assms(1) 2] by (cases "m = m1") (auto simp: Receive)
  qed (simp add: Receive)
qed

lemma step_total:
  assumes "inv c" "\<And>m. fits (pending c m @ concat (map units (delivered m (x # xs))))"
    "\<And>m len data. x = Receive m len data \<Longrightarrow> room (pending c m) len data"
  shows "\<exists>os c'. mail_step wr rd x c = Ok (os, c')"
proof (cases x)
  case (Deliver m d)
  have "fits (pending c m @ units d)"
    using assms(2) [of m] fits_split [of "pending c m @ units d"] by (simp add: Deliver)
  then show ?thesis using wr_law [OF assms(1), of m d] by (auto simp: mail_step_def Deliver)
next
  case (Receive m len data)
  then show ?thesis
    using rd_total [OF assms(1), of m len data] assms(3) by (auto simp: mail_step_def split: option.split)
qed

text \<open>
  Whatever the interleaving, no step fails, and the bytes received under an identifier followed
  by those still stored are the bytes that were stored followed by those delivered: none lost,
  duplicated or reordered, and none moved between identifiers.
\<close>

lemma run_conserves:
  assumes "inv c"
    "\<And>m. fits (pending c m @ concat (map units (delivered m xs)))"
    "\<And>m len data. Receive m len data \<in> set xs \<Longrightarrow>
       room (pending c m @ concat (map units (delivered m xs))) len data"
  shows "\<exists>os c'. run_steps (mail_step wr rd) xs c = Ok (os, c') \<and> inv c' \<and>
    (\<forall>m. received m os @ map Some (flat (pending c' m))
       = map Some (flat (pending c m) @ concat (delivered m xs)))"
  using assms
proof (induction xs arbitrary: c)
  case Nil
  then show ?case by simp
next
  case (Cons x xs)
  have "room (pending c m) len data" if "x = Receive m len data" for m len data
    using Cons.prems(3) [of m len data] room_split [of "pending c m"] that by simp
  then obtain o1 c1 where 1: "mail_step wr rd x c = Ok (o1, c1)"
    using step_total [OF Cons.prems(1,2)] by auto
  have s: "inv c1" "\<And>m. fits (pending c1 m @ concat (map units (delivered m xs)))"
      "\<And>m. received m o1 @ map Some (flat (pending c1 m))
        = map Some (flat (pending c m @ concat (map units (delivered m [x]))))"
    using step_conserves [OF Cons.prems(1) 1 Cons.prems(2)] by auto
  have "\<exists>us. pending c m @ concat (map units (delivered m (x # xs)))
      = us @ pending c1 m @ concat (map units (delivered m xs))" for m
    by (rule step_pending [OF Cons.prems(1) 1 Cons.prems(2)])
  then have "room (pending c1 m @ concat (map units (delivered m xs))) len data"
    if "Receive m len data \<in> set xs" for m len data
    using Cons.prems(3) [of m len data] room_split [of _ "pending c1 m @ concat (map units (delivered m xs))"] that
    by (metis list.set_intros(2))
  then obtain o2 c' where 2: "run_steps (mail_step wr rd) xs c1 = Ok (o2, c')" "inv c'"
      "\<And>m. received m o2 @ map Some (flat (pending c' m))
        = map Some (flat (pending c1 m) @ concat (delivered m xs))"
    using Cons.IH [OF s(1,2)] by blast
  have "received m (o1 @ o2) @ map Some (flat (pending c' m))
      = map Some (flat (pending c m) @ concat (delivered m (x # xs)))" for m
  proof -
    have "received m (o1 @ o2) @ map Some (flat (pending c' m))
        = (received m o1 @ map Some (flat (pending c1 m))) @ map Some (concat (delivered m xs))"
      using 2(3) [of m] by (simp add: received_append)
    also have "\<dots> = map Some (flat (pending c m) @ concat (delivered m (x # xs)))"
      unfolding s(3) by (cases x) (simp_all add: flat_append flat_units flat_Nil)
    finally show ?thesis .
  qed
  moreover have "run_steps (mail_step wr rd) (x # xs) c = Ok (o1 @ o2, c')" using 1 2(1) by simp
  ultimately show ?case using 2(2) by blast
qed

end

end
