(* ===== verification/Client_Connection.thy ===== *)
theory Client_Connection
  imports Cycle_Buffer Mailbox
begin

text \<open>
  \<^verbatim>\<open>core/include/client_connection.h\<close> and \<^verbatim>\<open>core/src/client_connection.cc\<close>: the store of what one
  remote client has sent, by message identifier. Two builds: without \<open>USE_BUFFER\<close> an identifier
  has a queue of messages (\<open>conn_write_q\<close>, \<open>conn_try_q\<close>), with it a \<open>cycle_buffer\<close>
  (\<open>conn_write_b\<close>, \<open>conn_try_b\<close>). Every access holds \<open>mutex_\<close>, so concurrent senders and
  receivers are a sequence of such accesses. \<open>recv\<close> repeats its attempt until data is there or
  the wait on \<open>cv_\<close> times out; the list of wake-ups is what the other threads and the clock do.
\<close>

record 'b ClientConnection =
  recv_timeout :: "int option"
  conn_nodeid :: string
  mapbuffer :: "string \<rightharpoonup> 'b"
  conn_buffer_size :: int

text \<open>\<open>recv_timeout_\<close> has no initialiser: it is indeterminate until \<open>SetRecvTimeOut\<close>.\<close>

definition conn_new :: "string \<Rightarrow> 'b ClientConnection" where
  "conn_new nodeid = \<lparr>recv_timeout = None, conn_nodeid = nodeid, mapbuffer = Map.empty,
                      conn_buffer_size = 1024 * 8\<rparr>"

definition SetRecvTimeOut :: "int \<Rightarrow> 'b ClientConnection \<Rightarrow> 'b ClientConnection" where
  "SetRecvTimeOut t c = c\<lparr>recv_timeout := Some t\<rparr>"

definition SetBufferSize :: "int \<Rightarrow> 'b ClientConnection \<Rightarrow> 'b ClientConnection" where
  "SetBufferSize n c = c\<lparr>conn_buffer_size := n\<rparr>"

section \<open>Message queues\<close>

definition conn_write_q ::
    "string \<Rightarrow> byte list \<Rightarrow> byte list list ClientConnection \<Rightarrow> byte list list ClientConnection" where
  "conn_write_q msgid data c =
     (let m = (case mapbuffer c msgid of None \<Rightarrow> (mapbuffer c)(msgid \<mapsto> []) | Some _ \<Rightarrow> mapbuffer c) in
      case m msgid of None \<Rightarrow> c | Some q \<Rightarrow> c\<lparr>mapbuffer := m(msgid \<mapsto> q @ [data])\<rparr>)"

text \<open>
  One pass of the loop of \<open>recv\<close> under the lock. \<open>std::copy\<close> writes the whole message to
  \<open>data\<close>, whatever the length the caller passed.
\<close>

definition conn_try_q ::
    "string \<Rightarrow> cell list \<Rightarrow> byte list list ClientConnection
     \<Rightarrow> (int \<times> cell list \<times> byte list list ClientConnection) option res" where
  "conn_try_q msgid data c =
     (case mapbuffer c msgid of
        Some (d # q) \<Rightarrow>
          res_bind (memcpy data 0 (map Some d) 0 (int (length d))) (\<lambda>data.
          Ok (Some (int (length d), data, c\<lparr>mapbuffer := (mapbuffer c)(msgid \<mapsto> q)\<rparr>)))
      | _ \<Rightarrow> Ok None)"

section \<open>Ring buffers\<close>

definition conn_write_b ::
    "int \<Rightarrow> string \<Rightarrow> byte list \<Rightarrow> cycle_buffer ClientConnection \<Rightarrow> cycle_buffer ClientConnection res" where
  "conn_write_b now msgid data c =
     res_bind (case mapbuffer c msgid of None \<Rightarrow> cb_new now (conn_buffer_size c) | Some b \<Rightarrow> Ok b) (\<lambda>b.
     res_bind (cb_write now (map Some data) (to_i32 (int (length data))) b) (\<lambda>(_, b).
     Ok (c\<lparr>mapbuffer := (mapbuffer c)(msgid \<mapsto> b)\<rparr>)))"

definition conn_try_b ::
    "int \<Rightarrow> string \<Rightarrow> int \<Rightarrow> cell list \<Rightarrow> cycle_buffer ClientConnection
     \<Rightarrow> (int \<times> cell list \<times> cycle_buffer ClientConnection) option res" where
  "conn_try_b now msgid len data c =
     (case mapbuffer c msgid of
        None \<Rightarrow> Ok None
      | Some b \<Rightarrow>
          if \<not> cb_empty b \<and> cb_can_read (to_i32 len) b then
            res_bind (cb_read now data (to_i32 len) b) (\<lambda>(r, data, b).
            Ok (Some (r, data, c\<lparr>mapbuffer := (mapbuffer c)(msgid \<mapsto> b)\<rparr>)))
          else Ok None)"

section \<open>The receive loop\<close>

text \<open>
  A wake-up of \<open>cv_.wait_for\<close>: the reading \<open>w_end\<close> of the clock taken before the wait, the time
  \<open>w_ret\<close> at which it returned, and what other threads wrote while the lock was released. The
  wait reports a timeout when the deadline has passed on return.
\<close>

record wake =
  w_end :: int
  w_ret :: int
  w_writes :: "(string \<times> byte list) list"

definition recv_remain :: "int \<Rightarrow> int \<Rightarrow> int \<Rightarrow> int" where
  "recv_remain timeout beg now = to_i64 (to_u64 (timeout - c_div (now - beg) 1000000))"

definition wait_timed_out :: "int \<Rightarrow> int \<Rightarrow> wake \<Rightarrow> bool" where
  "wait_timed_out timeout beg w \<longleftrightarrow> w_ret w \<ge> w_end w + recv_remain timeout beg (w_end w) * 1000000"

fun recv_loop ::
    "('c \<Rightarrow> (int \<times> cell list \<times> 'c) option res) \<Rightarrow> ((string \<times> byte list) list \<Rightarrow> 'c \<Rightarrow> 'c res)
     \<Rightarrow> int \<Rightarrow> int \<Rightarrow> cell list \<Rightarrow> wake list \<Rightarrow> 'c \<Rightarrow> (int \<times> cell list \<times> 'c) res" where
  "recv_loop attempt writes timeout beg data [] c =
     res_bind (attempt c) (\<lambda>r. case r of Some x \<Rightarrow> Ok x | None \<Rightarrow> Blocks)"
| "recv_loop attempt writes timeout beg data (w # ws) c =
     res_bind (attempt c) (\<lambda>r.
     case r of
       Some x \<Rightarrow> Ok x
     | None \<Rightarrow>
         res_bind (writes (w_writes w) c) (\<lambda>c.
         if wait_timed_out timeout beg w then Ok (0, data, c)
         else recv_loop attempt writes timeout beg data ws c))"

text \<open>
  The two builds of \<open>recv\<close>. Neither uses the argument \<open>timeout\<close>, which is therefore left out;
  the first does not use \<open>len\<close> either.
\<close>

definition conn_recv_q ::
    "string \<Rightarrow> int \<Rightarrow> cell list \<Rightarrow> int \<Rightarrow> wake list \<Rightarrow> byte list list ClientConnection
     \<Rightarrow> (int \<times> cell list \<times> byte list list ClientConnection) res" where
  "conn_recv_q msgid len data beg ws c =
     (case recv_timeout c of
        None \<Rightarrow> Throw (Undefined ''uninitialised'')
      | Some t \<Rightarrow> recv_loop (conn_try_q msgid data)
                   (res_fold (\<lambda>(m, d) c. Ok (conn_write_q m d c))) t beg data ws c)"

definition conn_recv_b ::
    "int \<Rightarrow> string \<Rightarrow> int \<Rightarrow> cell list \<Rightarrow> int \<Rightarrow> wake list \<Rightarrow> cycle_buffer ClientConnection
     \<Rightarrow> (int \<times> cell list \<times> cycle_buffer ClientConnection) res" where
  "conn_recv_b now msgid len data beg ws c =
     (case recv_timeout c of
        None \<Rightarrow> Throw (Undefined ''uninitialised'')
      | Some t \<Rightarrow> recv_loop (conn_try_b now msgid len data)
                   (res_fold (\<lambda>(m, d). conn_write_b now m d)) t beg data ws c)"

section \<open>Both builds are mailboxes\<close>

text \<open>What is stored under an identifier: whole messages, or bytes.\<close>

definition queued :: "byte list list ClientConnection \<Rightarrow> string \<Rightarrow> byte list list" where
  "queued c m = (case mapbuffer c m of None \<Rightarrow> [] | Some q \<Rightarrow> q)"

definition buffered :: "cycle_buffer ClientConnection \<Rightarrow> string \<Rightarrow> byte list" where
  "buffered c m = (case mapbuffer c m of None \<Rightarrow> [] | Some b \<Rightarrow> map the (cb_cells b))"

definition conn_ok :: "cycle_buffer ClientConnection \<Rightarrow> bool" where
  "conn_ok c \<longleftrightarrow> 0 < conn_buffer_size c \<and> conn_buffer_size c < 2 ^ 31 \<and>
     (\<forall>b \<in> ran (mapbuffer c). cb_inv b \<and> None \<notin> set (cb_cells b))"

lemma holds_iff: "cb_holds b q \<longleftrightarrow> cb_inv b \<and> None \<notin> set (cb_cells b) \<and> q = map the (cb_cells b)"
proof -
  have "None \<notin> set xs \<Longrightarrow> map Some (map the xs) = xs" for xs :: "cell list"
    by (induction xs) auto
  then show ?thesis by (auto simp: cb_holds_def o_def)
qed

lemma conn_ok_holds:
  assumes "conn_ok c" "mapbuffer c m = Some b"
  shows "cb_holds b (buffered c m)"
  using assms by (auto simp: conn_ok_def holds_iff buffered_def ran_def)

lemma conn_ok_upd:
  assumes "conn_ok c" "cb_holds b q"
  shows "conn_ok (c\<lparr>mapbuffer := (mapbuffer c)(m \<mapsto> b)\<rparr>)"
    "buffered (c\<lparr>mapbuffer := (mapbuffer c)(m \<mapsto> b)\<rparr>) = (buffered c)(m := q)"
  using assms by (auto simp: conn_ok_def holds_iff buffered_def ran_def fun_eq_iff)

lemma conn_write_q_queued:
  "queued (conn_write_q m d c) = (queued c)(m := queued c m @ [d])"
  by (auto simp: conn_write_q_def queued_def Let_def fun_eq_iff split: option.splits)

lemma conn_try_q_cases:
  "conn_try_q m data c =
    (case queued c m of
       [] \<Rightarrow> Ok None
     | d # q \<Rightarrow> if length d \<le> length data
         then Ok (Some (int (length d), map Some d @ drop (length d) data,
                        c\<lparr>mapbuffer := (mapbuffer c)(m \<mapsto> q)\<rparr>))
         else Throw (Undefined ''memcpy''))"
  using memcpy_out [of 0 "length d" "map Some d" data for d]
  by (auto simp: conn_try_q_def queued_def memcpy_def split: option.splits list.splits)

interpretation mq: mailbox "\<lambda>c. True" queued "\<lambda>m d c. Ok (conn_write_q m d c)"
  "\<lambda>m len. conn_try_q m" "\<lambda>d. [d]" concat "\<lambda>us. True"
  "\<lambda>us len data. \<forall>u \<in> set us. length u \<le> length data"
proof unfold_locales
  fix c m len data k data' c'
  assume "conn_try_q m data c = Ok (Some (k, data', c'))"
  then obtain d q where "queued c m = d # q" "k = int (length d)" "data' = map Some d @ drop (length d) data"
      "c' = c\<lparr>mapbuffer := (mapbuffer c)(m \<mapsto> q)\<rparr>"
    by (auto simp: conn_try_q_cases split: list.splits if_splits)
  moreover have "\<exists>us. d # q = us @ q \<and> int (length d) = int (length (concat us)) \<and>
      map Some d @ drop (length d) data = map Some (concat us) @ drop (nat (int (length d))) data"
    by (rule exI [of _ "[d]"]) simp
  ultimately show "True \<and> (\<exists>us. queued c m = us @ queued c' m \<and> k = int (length (concat us)) \<and>
        data' = map Some (concat us) @ drop (nat k) data) \<and> (\<forall>m'. m' \<noteq> m \<longrightarrow> queued c' m' = queued c m')"
    by (auto simp: queued_def)
qed (auto simp: conn_write_q_queued conn_try_q_cases split: list.split)

lemma conn_write_b_buffered:
  assumes "conn_ok c" "length (buffered c m) + length d \<le> cb_bound"
  shows "\<exists>c'. conn_write_b now m d c = Ok c' \<and> conn_ok c' \<and> buffered c' = (buffered c)(m := buffered c m @ d)"
proof -
  have len: "to_i32 (int (length d)) = int (length d)"
    using assms(2) by (simp add: cb_bound_def i32_ok_def)
  obtain b where b: "(case mapbuffer c m of None \<Rightarrow> cb_new now (conn_buffer_size c) | Some b \<Rightarrow> Ok b) = Ok b"
      "cb_holds b (buffered c m)"
    using conn_ok_holds [OF assms(1)] cb_new_holds [of "conn_buffer_size c" now] assms(1)
    by (cases "mapbuffer c m") (auto simp: conn_ok_def buffered_def)
  obtain b' where "cb_write now (map Some d) (int (length d)) b = Ok (int (length d), b')"
      "cb_holds b' (buffered c m @ d)"
    using cb_write_holds [OF b(2) assms(2)] by auto
  then show ?thesis
    using conn_ok_upd [OF assms(1)] by (simp add: conn_write_b_def b(1) len)
qed

lemma cb_read_neg: "k < 0 \<Longrightarrow> cb_read now data k b \<noteq> Ok x"
  by (auto simp: cb_read_def memcpy_def Let_def)

lemma cb_read_short: "length data < k \<Longrightarrow> cb_holds b q \<Longrightarrow> cb_read now data (int k) b \<noteq> Ok x"
  by (auto simp: cb_read_def memcpy_def Let_def res_bind_Ok_iff holds_iff cb_inv_def split: if_splits)

lemma conn_try_b_cases:
  assumes "conn_ok c" "to_i32 len = int k" "k \<le> length data"
  shows "buffered c m = [] \<or> length (buffered c m) < k \<Longrightarrow> conn_try_b now m len data c = Ok None"
    "buffered c m \<noteq> [] \<Longrightarrow> k \<le> length (buffered c m) \<Longrightarrow>
      \<exists>c'. conn_try_b now m len data c = Ok (Some (int k, map Some (take k (buffered c m)) @ drop k data, c'))
        \<and> conn_ok c' \<and> buffered c' = (buffered c)(m := drop k (buffered c m))"
proof -
  show "buffered c m = [] \<or> length (buffered c m) < k \<Longrightarrow> conn_try_b now m len data c = Ok None"
    using conn_ok_holds [OF assms(1), of m]
    by (auto simp: conn_try_b_def cb_can_read_holds cb_empty_holds assms(2) split: option.splits)
next
  assume *: "buffered c m \<noteq> []" "k \<le> length (buffered c m)"
  then obtain b where b: "mapbuffer c m = Some b" by (auto simp: buffered_def split: option.splits)
  have h: "cb_holds b (buffered c m)" by (rule conn_ok_holds [OF assms(1) b])
  obtain b' where "cb_read now data (int k) b = Ok (int k, map Some (take k (buffered c m)) @ drop k data, b')"
      "cb_holds b' (drop k (buffered c m))"
    using cb_read_holds [OF h *(2) assms(3)] by auto
  then show "\<exists>c'. conn_try_b now m len data c = Ok (Some (int k, map Some (take k (buffered c m)) @ drop k data, c'))
        \<and> conn_ok c' \<and> buffered c' = (buffered c)(m := drop k (buffered c m))"
    using conn_ok_upd [OF assms(1)] * h
    by (simp add: conn_try_b_def b cb_can_read_holds cb_empty_holds assms(2))
qed

text \<open>A receive that succeeds asked for a length between 0 and the room the caller has.\<close>

lemma conn_try_b_len:
  assumes "conn_ok c" "conn_try_b now m len data c = Ok (Some (r, d', c'))"
  obtains k where "to_i32 len = int k" "k \<le> length data" "buffered c m \<noteq> []" "k \<le> length (buffered c m)"
proof -
  from assms(2) obtain b where b: "mapbuffer c m = Some b" "\<not> cb_empty b" "cb_can_read (to_i32 len) b"
      and r: "cb_read now data (to_i32 len) b \<noteq> Throw e" "cb_read now data (to_i32 len) b \<noteq> Blocks" for e
    by (auto simp: conn_try_b_def res_bind_Ok_iff split: option.splits if_splits)
  have h: "cb_holds b (buffered c m)" by (rule conn_ok_holds [OF assms(1) b(1)])
  obtain x where x: "cb_read now data (to_i32 len) b = Ok x"
    using r by (cases "cb_read now data (to_i32 len) b") auto
  then have "0 \<le> to_i32 len" using cb_read_neg [of "to_i32 len" now data b x] by linarith
  then obtain k where k: "to_i32 len = int k" using nonneg_int_cases by blast
  then have "k \<le> length data" using cb_read_short [of data k b _ now x] h x by (metis not_le)
  then show thesis using that [of k] k b h by (simp add: cb_can_read_holds cb_empty_holds)
qed

interpretation mr: mailbox conn_ok buffered "conn_write_b now" "conn_try_b now"
  "\<lambda>d. d" "\<lambda>us. us" "\<lambda>us. length us \<le> cb_bound"
  "\<lambda>us len data. 0 \<le> to_i32 len \<and> to_i32 len \<le> int (length data)" for now
proof unfold_locales
  fix c m len data k data' c'
  assume c: "conn_ok c" and t: "conn_try_b now m len data c = Ok (Some (k, data', c'))"
  obtain j where "to_i32 len = int j" "j \<le> length data" "buffered c m \<noteq> []" "j \<le> length (buffered c m)"
    using conn_try_b_len [OF c t] .
  then have "k = int j" "data' = map Some (take j (buffered c m)) @ drop j data" "conn_ok c'"
      "buffered c' = (buffered c)(m := drop j (buffered c m))" "j \<le> length (buffered c m)"
    using conn_try_b_cases(2) [OF c, of len j data m now] t by auto
  then show "conn_ok c' \<and> (\<exists>us. buffered c m = us @ buffered c' m \<and> k = int (length us) \<and>
      data' = map Some us @ drop (nat k) data) \<and> (\<forall>m'. m' \<noteq> m \<longrightarrow> buffered c' m' = buffered c m')"
    by (auto intro!: exI [of _ "take j (buffered c m)"])
next
  fix c m len and data :: "cell list"
  assume c: "conn_ok c" and "0 \<le> to_i32 len \<and> to_i32 len \<le> int (length data)"
  then obtain k where "to_i32 len = int k" "k \<le> length data" by (metis nonneg_int_cases of_nat_le_iff)
  then show "\<exists>r. conn_try_b now m len data c = Ok r"
    using conn_try_b_cases [OF c, of len k data m now] by (cases "buffered c m = [] \<or> length (buffered c m) < k") auto
qed (use conn_write_b_buffered in auto)

section \<open>The receive loop: deadline and progress\<close>

text \<open>A wait that reports a timeout returned no earlier than \<open>timeout\<close> milliseconds after \<open>beg\<close>.\<close>

lemma recv_remain_eq:
  assumes "0 \<le> t" "t < 2 ^ 40" "beg \<le> e" "e - beg < 2 ^ 63"
  shows "recv_remain t beg e = t - (e - beg) div 1000000"
proof -
  have id64: "to_i64 (to_u64 x) = x" if "- (2 ^ 62) < x" "x < 2 ^ 62" for x :: int
    using that by (simp add: to_i64_def to_u64_def mod_simps)
  have "0 \<le> (e - beg) div 1000000" "(e - beg) div 1000000 \<le> e - beg"
    using assms(3) by (auto simp: pos_imp_zdiv_nonneg_iff intro: zdiv_mono2 [of "e - beg" 1, simplified])
  moreover have "(e - beg) div 1000000 \<le> (2 ^ 63) div 1000000"
    using assms(4) by (intro zdiv_mono1) auto
  ultimately have "to_i64 (to_u64 (t - (e - beg) div 1000000)) = t - (e - beg) div 1000000"
    using assms(1,2) by (intro id64) auto
  then show ?thesis using assms(3) by (simp add: recv_remain_def c_div_nonneg)
qed

definition sane_wake :: "int \<Rightarrow> wake \<Rightarrow> bool" where
  "sane_wake beg w \<longleftrightarrow> beg \<le> w_end w \<and> w_end w - beg < 2 ^ 63 \<and> w_end w \<le> w_ret w"

lemma timed_out_after:
  assumes "0 \<le> t" "t < 2 ^ 40" "sane_wake beg w" "wait_timed_out t beg w"
  shows "beg + t * 1000000 \<le> w_ret w"
proof -
  let ?d = "w_end w - beg"
  have "recv_remain t beg (w_end w) = t - ?d div 1000000"
    using assms by (intro recv_remain_eq) (auto simp: sane_wake_def)
  moreover have "?d div 1000000 * 1000000 \<le> ?d"
    using div_mult_mod_eq [of ?d 1000000] pos_mod_sign [of 1000000 ?d] by linarith
  ultimately show ?thesis using assms(4) by (simp add: wait_timed_out_def left_diff_distrib)
qed

lemma late_wake_times_out:
  assumes "0 \<le> t" "t < 2 ^ 40" "sane_wake beg w" "beg + t * 1000000 \<le> w_end w"
  shows "wait_timed_out t beg w"
proof -
  let ?d = "w_end w - beg"
  have r: "recv_remain t beg (w_end w) = t - ?d div 1000000"
    using assms by (intro recv_remain_eq) (auto simp: sane_wake_def)
  have "t * 1000000 div 1000000 \<le> ?d div 1000000"
    using assms(4) by (intro zdiv_mono1) auto
  then have "(t - ?d div 1000000) * 1000000 \<le> 0" by simp
  then show ?thesis using assms(3) by (simp add: wait_timed_out_def r sane_wake_def)
qed

lemma recv_loop_outcome:
  assumes "recv_loop attempt (res_fold f) t beg data ws c = Ok (r, d', c')"
  shows "(\<exists>n c1. res_fold f (concat (map w_writes (take n ws))) c = Ok c1 \<and> attempt c1 = Ok (Some (r, d', c')))
    \<or> (r = 0 \<and> d' = data \<and> (\<exists>w \<in> set ws. wait_timed_out t beg w))"
  using assms
proof (induction ws arbitrary: c)
  case Nil
  then show ?case by (auto simp: res_bind_Ok_iff split: option.splits)
next
  case (Cons w ws)
  from Cons.prems consider "attempt c = Ok (Some (r, d', c'))"
    | "r = 0" "d' = data" "wait_timed_out t beg w"
    | c1 where "res_fold f (w_writes w) c = Ok c1" "recv_loop attempt (res_fold f) t beg data ws c1 = Ok (r, d', c')"
    by (auto simp: res_bind_Ok_iff split: option.splits if_splits)
  then show ?case
  proof cases
    case 1
    then show ?thesis by (intro disjI1 exI [of _ 0] exI [of _ c]) simp
  next
    case 2
    then show ?thesis by simp
  next
    case 3
    from Cons.IH [OF 3(2)] show ?thesis
    proof (elim disjE exE conjE)
      fix n c2
      assume "res_fold f (concat (map w_writes (take n ws))) c1 = Ok c2" "attempt c2 = Ok (Some (r, d', c'))"
      then show ?thesis
        using 3(1) by (intro disjI1 exI [of _ "Suc n"] exI [of _ c2]) (simp add: res_fold_append)
    qed auto
  qed
qed

lemma recv_loop_returns:
  assumes "\<And>c. attempt c \<noteq> Blocks" "\<And>xs c. writes xs c \<noteq> Blocks" "\<exists>w \<in> set ws. wait_timed_out t beg w"
  shows "recv_loop attempt writes t beg data ws c \<noteq> Blocks"
  using assms(3)
proof (induction ws arbitrary: c)
  case (Cons w ws)
  then show ?case
    using assms(1,2) by (auto simp: res_bind_Blocks_iff split: option.splits if_splits)
qed simp

lemma conn_try_q_not_Blocks: "conn_try_q m data c \<noteq> Blocks"
  by (auto simp: conn_try_q_cases split: list.splits)

lemma fold_writes_q:
  "res_fold (\<lambda>(m, d) c. Ok (conn_write_q m d c)) xs c = Ok (fold (\<lambda>(m, d). conn_write_q m d) xs c)"
  by (induction xs arbitrary: c) auto

definition msgs_for :: "string \<Rightarrow> (string \<times> byte list) list \<Rightarrow> byte list list" where
  "msgs_for m xs = map snd (filter (\<lambda>(m', _). m' = m) xs)"

lemma msgs_for_simps [simp]:
  "msgs_for m [] = []"
  "msgs_for m ((m', d) # xs) = (if m' = m then d # msgs_for m xs else msgs_for m xs)"
  by (simp_all add: msgs_for_def)

lemma queued_fold:
  "queued (fold (\<lambda>(m, d). conn_write_q m d) xs c) m = queued c m @ msgs_for m xs"
  by (induction xs arbitrary: c) (auto simp: conn_write_q_queued)

lemma msgs_for_append: "msgs_for m (xs @ ys) = msgs_for m xs @ msgs_for m ys"
  by (simp add: msgs_for_def)

text \<open>A sequence of writes by other threads appends to what is buffered under each identifier.\<close>

lemma buffered_fold:
  assumes "conn_ok c" "\<And>m. length (buffered c m @ concat (msgs_for m xs)) \<le> cb_bound"
  shows "\<exists>c'. res_fold (\<lambda>(m, d). conn_write_b now m d) xs c = Ok c' \<and> conn_ok c' \<and>
    (\<forall>m. buffered c' m = buffered c m @ concat (msgs_for m xs))"
  using assms
proof (induction xs arbitrary: c)
  case (Cons x xs)
  obtain m d where x: "x = (m, d)" by force
  have "length (buffered c m) + length d \<le> cb_bound" using Cons.prems(2) [of m] by (simp add: x)
  then obtain c1 where c1: "conn_write_b now m d c = Ok c1" "conn_ok c1"
      "buffered c1 = (buffered c)(m := buffered c m @ d)"
    using conn_write_b_buffered [OF Cons.prems(1), of m d now] by auto
  have "length (buffered c1 m' @ concat (msgs_for m' xs)) \<le> cb_bound" for m'
    using Cons.prems(2) [of m'] by (cases "m' = m") (auto simp: x c1(3))
  then show ?case using Cons.IH [OF c1(2)] c1 by (auto simp: x)
qed simp

lemma recv_loop_skip:
  assumes "\<forall>w \<in> set pre. \<not> wait_timed_out t beg w \<and> msgs_for m (w_writes w) = []" "queued c m = []"
  shows "\<exists>c1. queued c1 m = [] \<and>
    recv_loop (conn_try_q m data) (res_fold (\<lambda>(m, d) c. Ok (conn_write_q m d c))) t beg data (pre @ ws) c
    = recv_loop (conn_try_q m data) (res_fold (\<lambda>(m, d) c. Ok (conn_write_q m d c))) t beg data ws c1"
  using assms
proof (induction pre arbitrary: c)
  case Nil
  then show ?case by auto
next
  case (Cons w pre)
  have "queued (fold (\<lambda>(m, d). conn_write_q m d) (w_writes w) c) m = []"
    using Cons.prems by (simp add: queued_fold)
  then show ?case
    using Cons.IH [of "fold (\<lambda>(m, d). conn_write_q m d) (w_writes w) c"] Cons.prems
    by (simp add: conn_try_q_cases fold_writes_q)
qed

text \<open>
  C9. Queue build: for every interleaving of deliveries and receive attempts on a fresh
  connection in which the caller's memory can take the messages, no step fails, and under every
  message identifier the bytes received followed by the bytes still queued are exactly the bytes
  delivered, in order; identifiers do not mix.
\<close>

theorem conn_queue_conserves:
  assumes "\<And>m len data d. Receive m len data \<in> set xs \<Longrightarrow> d \<in> set (delivered m xs) \<Longrightarrow> length d \<le> length data"
  shows "\<exists>os c'. run_steps (mail_step (\<lambda>m d c. Ok (conn_write_q m d c)) (\<lambda>m len. conn_try_q m)) xs
      (conn_new nodeid) = Ok (os, c') \<and>
    (\<forall>m. received m os @ map Some (concat (queued c' m)) = map Some (concat (delivered m xs)))"
proof -
  have "queued (conn_new nodeid) m = []" for m by (simp add: queued_def conn_new_def)
  then show ?thesis using mq.run_conserves [where c = "conn_new nodeid" and xs = xs] assms by force
qed

theorem conn_queue_conserves_witness:
  "\<exists>os c'. run_steps (mail_step (\<lambda>m d c. Ok (conn_write_q m d c)) (\<lambda>m len. conn_try_q m))
      [Deliver ''a'' [1, 2], Deliver ''b'' [9], Receive ''a'' 5 [None, None, None], Deliver ''a'' [3]]
      (conn_new ''n'') = Ok (os, c') \<and>
    (\<forall>m. received m os @ map Some (concat (queued c' m)) = map Some (concat (delivered m
      [Deliver ''a'' [1, 2], Deliver ''b'' [9], Receive ''a'' 5 [None, None, None], Deliver ''a'' [3]])))"
  by (rule conn_queue_conserves) auto

text \<open>
  C10. Ring build: the same for \<open>cycle_buffer\<close> storage, whatever the buffer size, as long as
  less than \<open>cb_bound\<close> bytes are delivered under each identifier and the requested length fits
  the caller's memory.
\<close>

theorem conn_ring_conserves:
  assumes "0 < n" "n < 2 ^ 31"
    "\<And>m. length (concat (delivered m xs)) \<le> cb_bound"
    "\<And>m len data. Receive m len data \<in> set xs \<Longrightarrow> 0 \<le> to_i32 len \<and> to_i32 len \<le> int (length data)"
  shows "\<exists>os c'. run_steps (mail_step (conn_write_b now) (conn_try_b now)) xs
      (SetBufferSize n (conn_new nodeid)) = Ok (os, c') \<and>
    (\<forall>m. received m os @ map Some (buffered c' m) = map Some (concat (delivered m xs)))"
proof -
  let ?c = "SetBufferSize n (conn_new nodeid) :: cycle_buffer ClientConnection"
  have "conn_ok ?c" "buffered ?c m = []" for m
    using assms(1,2) by (simp_all add: conn_ok_def SetBufferSize_def conn_new_def buffered_def)
  then show ?thesis using mr.run_conserves [where c = ?c and xs = xs and now = now] assms(3,4) by force
qed

theorem conn_ring_conserves_witness:
  "\<exists>os c'. run_steps (mail_step (conn_write_b 0) (conn_try_b 0))
      [Deliver ''a'' [1, 2], Receive ''a'' 1 [None], Deliver ''a'' [3, 4, 5]]
      (SetBufferSize 2 (conn_new ''n'')) = Ok (os, c') \<and>
    (\<forall>m. received m os @ map Some (buffered c' m) = map Some (concat (delivered m
      [Deliver ''a'' [1, 2], Receive ''a'' 1 [None], Deliver ''a'' [3, 4, 5]])))"
  by (rule conn_ring_conserves) (auto simp: cb_bound_def to_i32_def)

text \<open>
  C11. Ring build: \<open>recv\<close> of \<open>k\<close> bytes, among whatever other threads write meanwhile, has two
  outcomes. It returns \<open>k\<close>, having moved to the caller the first \<open>k\<close> bytes of what was buffered
  at the call followed by what was written up to some wake-up, and leaving the rest; or it returns
  0 with the caller's memory untouched, and then at least \<open>recv_timeout_\<close> milliseconds have
  passed since the call.
\<close>

theorem conn_recv_full_or_timeout:
  assumes "recv_timeout c = Some t" "0 \<le> t" "t < 2 ^ 40" "\<And>w. w \<in> set ws \<Longrightarrow> sane_wake beg w"
    "conn_ok c" "\<And>m. length (buffered c m @ concat (msgs_for m (concat (map w_writes ws)))) \<le> cb_bound"
    "to_i32 len = int k" "k \<le> length data"
    "conn_recv_b now m len data beg ws c = Ok (r, data', c')"
  shows "(\<exists>n q. q = buffered c m @ concat (msgs_for m (concat (map w_writes (take n ws)))) \<and>
      r = int k \<and> k \<le> length q \<and> data' = map Some (take k q) @ drop k data \<and> buffered c' m = drop k q)
    \<or> r = 0 \<and> data' = data \<and> (\<exists>w \<in> set ws. beg + t * 1000000 \<le> w_ret w)"
proof -
  have "recv_loop (conn_try_b now m len data) (res_fold (\<lambda>(m, d). conn_write_b now m d)) t beg data ws c
      = Ok (r, data', c')"
    using assms(1,9) by (simp add: conn_recv_b_def)
  from recv_loop_outcome [OF this] show ?thesis
  proof (elim disjE exE conjE)
    fix n c1
    assume f: "res_fold (\<lambda>(m, d). conn_write_b now m d) (concat (map w_writes (take n ws))) c = Ok c1"
      and a: "conn_try_b now m len data c1 = Ok (Some (r, data', c'))"
    let ?q = "buffered c m @ concat (msgs_for m (concat (map w_writes (take n ws))))"
    have "length (buffered c m' @ concat (msgs_for m' (concat (map w_writes (take n ws))))) \<le> cb_bound" for m'
    proof -
      have "concat (map w_writes ws) = concat (map w_writes (take n ws)) @ concat (map w_writes (drop n ws))"
        by (simp flip: concat_append map_append)
      then show ?thesis using assms(6) [of m'] by (simp add: msgs_for_append)
    qed
    then have c1: "conn_ok c1" "buffered c1 m = ?q"
      using buffered_fold [OF assms(5), of "concat (map w_writes (take n ws))" now] f by auto
    obtain j where "to_i32 len = int j" "buffered c1 m \<noteq> []" "j \<le> length (buffered c1 m)"
      using conn_try_b_len [OF c1(1) a] .
    then show ?thesis
      using conn_try_b_cases(2) [OF c1(1) assms(7,8), of m now] a c1(2) assms(7) by auto
  next
    assume "r = 0" "data' = data" "\<exists>w \<in> set ws. wait_timed_out t beg w"
    then show ?thesis
      using timed_out_after [OF assms(2,3)] assms(4) \<open>r = 0\<close> \<open>data' = data\<close> by blast
  qed
qed

text \<open>
  C12. Queue build: \<open>recv\<close> comes back. Once the clock read before some wait is past the
  deadline, the loop ends, whatever the wake-ups before it were (spurious ones, and ones for
  other identifiers, included).
\<close>

theorem conn_recv_returns:
  assumes "recv_timeout c = Some t" "0 \<le> t" "t < 2 ^ 40"
    "w \<in> set ws" "sane_wake beg w" "beg + t * 1000000 \<le> w_end w"
  shows "conn_recv_q m len data beg ws c \<noteq> Blocks"
proof -
  have "\<exists>w \<in> set ws. wait_timed_out t beg w"
    using late_wake_times_out [OF assms(2,3,5,6)] assms(4) by blast
  then have "recv_loop (conn_try_q m data) (res_fold (\<lambda>(m, d) c. Ok (conn_write_q m d c))) t beg data ws c \<noteq> Blocks"
    by (rule recv_loop_returns [rotated 2]) (simp_all add: conn_try_q_not_Blocks fold_writes_q)
  then show ?thesis using assms(1) by (simp add: conn_recv_q_def)
qed

text \<open>
  C13. Queue build: a message written before the timeout is received. If nothing is queued under
  the identifier and the first wake-up that finds one is not a timeout, \<open>recv\<close> returns that
  message, and leaves exactly the later ones.
\<close>

theorem conn_recv_delivers:
  assumes "recv_timeout c = Some t" "queued c m = []"
    "\<And>v. v \<in> set pre \<Longrightarrow> \<not> wait_timed_out t beg v \<and> msgs_for m (w_writes v) = []"
    "\<not> wait_timed_out t beg w" "msgs_for m (w_writes w) = d # ds" "length d \<le> length data"
  shows "\<exists>c'. conn_recv_q m len data beg (pre @ w # post) c
      = Ok (int (length d), map Some d @ drop (length d) data, c') \<and> queued c' m = ds"
proof -
  obtain c1 where c1: "queued c1 m = []"
    "recv_loop (conn_try_q m data) (res_fold (\<lambda>(m, d) c. Ok (conn_write_q m d c))) t beg data (pre @ w # post) c
     = recv_loop (conn_try_q m data) (res_fold (\<lambda>(m, d) c. Ok (conn_write_q m d c))) t beg data (w # post) c1"
    using recv_loop_skip [of pre t beg m c data "w # post"] assms(2,3) by auto
  let ?c2 = "fold (\<lambda>(m, d). conn_write_q m d) (w_writes w) c1"
  have q: "queued ?c2 m = d # ds" using c1(1) assms(5) by (simp add: queued_fold)
  have att: "conn_try_q m data ?c2 = Ok (Some (int (length d), map Some d @ drop (length d) data,
      ?c2\<lparr>mapbuffer := (mapbuffer ?c2)(m \<mapsto> ds)\<rparr>))"
    using q assms(6) by (simp add: conn_try_q_cases)
  have "recv_loop (conn_try_q m data) (res_fold (\<lambda>(m, d) c. Ok (conn_write_q m d c))) t beg data (w # post) c1
      = Ok (int (length d), map Some d @ drop (length d) data, ?c2\<lparr>mapbuffer := (mapbuffer ?c2)(m \<mapsto> ds)\<rparr>)"
    using c1(1) assms(4) att by (cases post) (simp_all add: conn_try_q_cases fold_writes_q)
  then show ?thesis using assms(1) c1(2) by (auto simp: conn_recv_q_def queued_def)
qed

text \<open>
  C14. Queue build: the length the caller passes is not consulted. A message longer than the
  caller's memory is copied out of bounds.
\<close>

theorem conn_recv_overruns:
  assumes "recv_timeout c = Some t" "queued c m = d # ds" "length data < length d"
  shows "conn_recv_q m len data beg ws c = Throw (Undefined ''memcpy'')"
  using assms by (cases ws) (simp_all add: conn_recv_q_def conn_try_q_cases)

text \<open>Examples: a connection with a timeout of 5 ms, and wake-ups for it.\<close>

definition conn5 :: "byte list list ClientConnection" where
  "conn5 = conn_write_q ''b'' [7, 8] (SetRecvTimeOut 5 (conn_new ''n''))"

definition wakes5 :: "wake list" where
  "wakes5 = [\<lparr>w_end = 10, w_ret = 2000000, w_writes = [(''b'', [1])]\<rparr>,
             \<lparr>w_end = 2000100, w_ret = 3000000, w_writes = [(''a'', [4, 5]), (''a'', [6])]\<rparr>,
             \<lparr>w_end = 6000000, w_ret = 6000001, w_writes = []\<rparr>]"

theorem conn_recv_full_or_timeout_witness:
  "\<exists>c'. conn_recv_b 0 ''a'' 3 [None, None, None] 0
      [\<lparr>w_end = 10, w_ret = 6000000, w_writes = [(''a'', [1])]\<rparr>] (SetRecvTimeOut 5 (conn_new ''n''))
    = Ok (0, [None, None, None], c') \<and> 0 + 5 * 1000000 \<le> (6000000 :: int)"
proof -
  let ?w = "\<lparr>w_end = 10, w_ret = 6000000, w_writes = [(''a'', [1])]\<rparr>"
  let ?c = "SetRecvTimeOut 5 (conn_new ''n'') :: cycle_buffer ClientConnection"
  have ok: "conn_ok ?c" "\<And>m. buffered ?c m = []"
    by (simp_all add: conn_ok_def SetRecvTimeOut_def conn_new_def buffered_def)
  obtain c1 where c1: "conn_write_b 0 ''a'' [1] ?c = Ok c1"
    using conn_write_b_buffered [OF ok(1), of "''a''" "[1]" 0] by (auto simp: ok cb_bound_def)
  have "wait_timed_out 5 0 ?w" by code_simp
  then have r: "conn_recv_b 0 ''a'' 3 [None, None, None] 0 [?w] ?c = Ok (0, [None, None, None], c1)"
    using c1 by (simp add: conn_recv_b_def SetRecvTimeOut_def conn_new_def conn_try_b_def)
  have "(\<exists>n q. q = buffered ?c ''a'' @ concat (msgs_for ''a'' (concat (map w_writes (take n [?w])))) \<and>
      (0 :: int) = int 3 \<and> 3 \<le> length q \<and> [None, None, None] = map Some (take 3 q) @ drop 3 [None, None, None]
      \<and> buffered c1 ''a'' = drop 3 q)
    \<or> (0 :: int) = 0 \<and> [None, None, None] = [None, None, None :: cell]
      \<and> (\<exists>w \<in> set [?w]. 0 + 5 * 1000000 \<le> w_ret w)"
    by (rule conn_recv_full_or_timeout [OF _ _ _ _ ok(1) _ _ _ r])
      (simp_all add: ok, simp_all add: SetRecvTimeOut_def sane_wake_def cb_bound_def to_i32_def)
  then show ?thesis using r by simp
qed

theorem conn_recv_returns_witness: "conn_recv_q ''z'' 4 [None] 0 wakes5 conn5 \<noteq> Blocks"
  by (rule conn_recv_returns [of _ 5 "\<lparr>w_end = 6000000, w_ret = 6000001, w_writes = []\<rparr>"])
    (simp_all add: conn5_def conn_write_q_def SetRecvTimeOut_def conn_new_def wakes5_def sane_wake_def)

theorem conn_recv_delivers_witness:
  "\<exists>c'. conn_recv_q ''a'' 4 [None, None, None] 0 wakes5 conn5 = Ok (2, [Some 4, Some 5, None], c')
    \<and> queued c' ''a'' = [[6]]"
proof -
  have "\<exists>c'. conn_recv_q ''a'' 4 [None, None, None] 0 ([wakes5 ! 0] @ wakes5 ! 1 # [wakes5 ! 2]) conn5
      = Ok (int (length [4, 5 :: byte]), map Some [4, 5] @ drop (length [4, 5 :: byte]) [None, None, None], c')
      \<and> queued c' ''a'' = [[6]]"
  proof (rule conn_recv_delivers [of _ 5])
    show "recv_timeout conn5 = Some 5" "queued conn5 ''a'' = []"
      by (simp_all add: conn5_def conn_write_q_def SetRecvTimeOut_def conn_new_def queued_def)
    show "\<not> wait_timed_out 5 0 (wakes5 ! 1)" by code_simp
    have "\<not> wait_timed_out 5 0 (wakes5 ! 0)" by code_simp
    then show "\<not> wait_timed_out 5 0 v \<and> msgs_for ''a'' (w_writes v) = []" if "v \<in> set [wakes5 ! 0]" for v
      using that by (simp add: wakes5_def)
  qed (simp_all add: wakes5_def)
  then show ?thesis by (simp add: wakes5_def)
qed

theorem conn_recv_overruns_witness:
  "conn_recv_q ''b'' 1 [None] 0 [] conn5 = Throw (Undefined ''memcpy'')"
  by (rule conn_recv_overruns [of _ 5 _ "[7, 8]" "[]"])
    (simp_all add: conn5_def conn_write_q_def SetRecvTimeOut_def conn_new_def queued_def)

end
