(* ===== verification/Endpoints.thy ===== *)
theory Endpoints
  imports Topology Client_Connection
begin

text \<open>
  The two ends of a connection: \<^verbatim>\<open>core/src/base_server.cc\<close>, \<^verbatim>\<open>sync_server.cc\<close>, \<^verbatim>\<open>async_server.cc\<close>
  (the properties, the adapter and the identity a node serves under) and \<^verbatim>\<open>core/src/base_client.cc\<close>
  (the properties and the proxy a node connects with). Ice itself is a parameter: \<open>init\<close> creates
  a communicator and its adapter from the properties, \<open>activate\<close> adds the servant and activates
  the adapter, \<open>session\<close> opens a router session, \<open>proxy\<close> turns a proxy string into a proxy; each
  may throw.
\<close>

type_synonym ice_properties = "string \<rightharpoonup> string"

text \<open>\<open>try { ... } catch (const Ice::Exception& e) { h(e.what()) }\<close>.\<close>

definition catch_ice :: "'a res \<Rightarrow> (string \<Rightarrow> 'a res) \<Rightarrow> 'a res" where
  "catch_ice r h = (case r of Throw (Ice_Exception w) \<Rightarrow> h w | _ \<Rightarrow> r)"

section \<open>Servers\<close>

definition server_is_ssl :: "NodeInfo \<Rightarrow> bool" where
  "server_is_ssl info \<longleftrightarrow> ni_ca_cert_path info \<noteq> []"

definition protocol_of :: "bool \<Rightarrow> string" where
  "protocol_of ssl = (if ssl then ''ssl'' else ''tcp'')"

text \<open>The endpoint properties (lines 20-47): through IceGrid without an address, direct with one.\<close>

definition server_endpoint_props :: "NodeInfo \<Rightarrow> string \<Rightarrow> ice_properties \<Rightarrow> ice_properties res" where
  "server_endpoint_props info taskId props =
     (let protocol = protocol_of (server_is_ssl info) in
      case str_find CHR '':'' (ni_address info) of
        None \<Rightarrow>
          let ip = Ip (ni_ice_grid_info info); port = Port (ni_ice_grid_info info);
              app = AppName (ni_ice_grid_info info) in
          if app = [] \<or> ip = [] \<or> port = [] then
            HANDLE_EXCEPTION_EVENT C_EVENT_CODE_NO_ICEGRID taskId [StrArg (ni_id info)]
          else if ni_public_ip info = [] then
            HANDLE_EXCEPTION_EVENT C_EVENT_CODE_NO_PUBLIC_IP taskId [StrArg (ni_id info)]
          else
            Ok (props(C_IceGrid_Locator_Key \<mapsto> app @ ''/Locator:tcp -p '' @ port @ '' -h '' @ ip,
                      C_Servant_Endpoints_Key \<mapsto> protocol @ '' -h '' @ ni_public_ip info,
                      C_Servant_AdapterId_Key \<mapsto>
                        FilterIllChar (C_Servant_Adapter_Id_Prefix @ taskId @ ''_'' @ ni_id info)))
      | Some npos \<Rightarrow>
          let ip = substr (ni_address info) 0 npos;
              port = substr (ni_address info) (npos + 1) (length (ni_address info)) in
          Ok (props(C_Servant_Endpoints_Key \<mapsto> protocol @ '' -h '' @ ip @ '' -p '' @ port)))"

definition server_props :: "NodeInfo \<Rightarrow> string \<Rightarrow> ice_properties res" where
  "server_props info taskId =
     res_bind (server_endpoint_props info taskId Map.empty) (\<lambda>props.
     let props = props(C_MAX_SIZE_KEY \<mapsto> ''0'') in
     Ok (if server_is_ssl info then
           props(''Ice.Plugin.IceSSL'' \<mapsto> ''IceSSL:createIceSSL'',
                 ''IceSSL.DefaultDir'' \<mapsto> ni_cert_dir info, ''IceSSL.CAs'' \<mapsto> ni_ca_cert_path info,
                 ''IceSSL.CertFile'' \<mapsto> ni_server_cert_path info, ''IceSSL.Password'' \<mapsto> ni_password info)
         else props))"

definition BaseServer :: "(ice_properties \<Rightarrow> unit res) \<Rightarrow> NodeInfo \<Rightarrow> string \<Rightarrow> ice_properties res" where
  "BaseServer init info taskId =
     res_bind (server_props info taskId) (\<lambda>props.
     res_bind (catch_ice (init props) (\<lambda>w.
       HANDLE_EXCEPTION_EVENT C_EVENT_CODE_START_SERVICE taskId [StrArg (ni_id info), StrArg w])) (\<lambda>_.
     Ok props))"

definition servant_identity :: "string \<Rightarrow> string \<Rightarrow> string" where
  "servant_identity taskId nodeid = FilterIllChar (C_Servant_Id_Prefix @ taskId @ ''_'' @ nodeid)"

definition adapter_identity :: "string \<Rightarrow> string \<Rightarrow> string" where
  "adapter_identity taskId nodeid = FilterIllChar (C_Servant_Adapter_Id_Prefix @ taskId @ ''_'' @ nodeid)"

text \<open>What is running after the constructor: the properties and the identity of the servant.\<close>

definition SyncServer ::
    "(ice_properties \<Rightarrow> unit res) \<Rightarrow> (string \<Rightarrow> unit res) \<Rightarrow> NodeInfo \<Rightarrow> string
     \<Rightarrow> (ice_properties \<times> string) res" where
  "SyncServer init activate info taskId =
     res_bind (BaseServer init info taskId) (\<lambda>props.
     let name = servant_identity taskId (ni_id info) in
     res_bind (catch_ice (activate name) (\<lambda>w.
       HANDLE_EXCEPTION_EVENT C_EVENT_CODE_START_SERVICE taskId [StrArg (ni_id info), StrArg w])) (\<lambda>_.
     Ok (props, name)))"

section \<open>Clients\<close>

definition client_is_ssl :: "ViaInfo \<Rightarrow> bool" where
  "client_is_ssl via \<longleftrightarrow> vi_ca_cert_path via \<noteq> []"

definition SetSSLProperty :: "ViaInfo \<Rightarrow> ice_properties \<Rightarrow> ice_properties option" where
  "SetSSLProperty via props =
     (if vi_server_cert_path via = [] \<or> vi_client_cert_path via = [] then None
      else Some (props(''Ice.Plugin.IceSSL'' \<mapsto> ''IceSSL:createIceSSL'',
        ''IceSSL.DefaultDir'' \<mapsto> vi_cert_dir via, ''IceSSL.CAs'' \<mapsto> vi_ca_cert_path via,
        ''IceSSL.CertFile'' \<mapsto> vi_client_cert_path via, ''IceSSL.Password'' \<mapsto> vi_password via)))"

definition with_ssl :: "ViaInfo \<Rightarrow> string \<Rightarrow> ice_properties \<Rightarrow> ice_properties res" where
  "with_ssl via taskid props =
     (if client_is_ssl via then
        (case SetSSLProperty via props of
           None \<Rightarrow> HANDLE_EXCEPTION_EVENT C_EVENT_CODE_INVALID_CERT taskid [StrArg (vi_id via)]
         | Some props \<Rightarrow> Ok props)
      else Ok props)"

text \<open>Through the Glacier2 router: the properties and the proxy string (lines 52-95).\<close>

definition router_connection :: "ViaInfo \<Rightarrow> string \<Rightarrow> (ice_properties \<times> string) res" where
  "router_connection via taskid =
     (let ip = Ip (vi_glacier2_info via); port = Port (vi_glacier2_info via);
          app = AppName (vi_glacier2_info via); protocol = protocol_of (client_is_ssl via) in
      if app = [] \<or> ip = [] \<or> port = [] then
        HANDLE_EXCEPTION_EVENT C_EVENT_CODE_NO_GLACIER2 taskid [StrArg (vi_id via)]
      else
        res_bind (with_ssl via taskid [C_Glacier2_Router_Key \<mapsto> app @ ''/router:'' @ protocol @ '' -p '' @ port @ '' -h '' @ ip,
                                       C_MAX_SIZE_KEY \<mapsto> ''0'']) (\<lambda>props.
        Ok (props, servant_identity taskid (vi_id via) @ ''@'' @ adapter_identity taskid (vi_id via))))"

text \<open>Directly (lines 101-112): the proxy string is itself a property.\<close>

definition direct_connection :: "ViaInfo \<Rightarrow> string \<Rightarrow> nat \<Rightarrow> (ice_properties \<times> string) res" where
  "direct_connection via taskid npos =
     (let ip = substr (vi_via_address via) 0 npos;
          port = substr (vi_via_address via) (npos + 1) (length (vi_via_address via));
          endpoints = servant_identity taskid (vi_id via) @ '':'' @ protocol_of (client_is_ssl via)
            @ '' -h '' @ ip @ '' -p '' @ port in
      res_bind (with_ssl via taskid [C_Server_Proxy_Key \<mapsto> endpoints, C_MAX_SIZE_KEY \<mapsto> ''0'']) (\<lambda>props.
      Ok (props, endpoints)))"

record 'p BaseClient =
  bc_task_id :: string
  bc_remote_nid :: string
  bc_proxy_string :: string
  bc_stub :: 'p
  bc_send_timeout :: "int option"

text \<open>
  The constructor. \<open>proxy\<close> gives no proxy (\<open>None\<close>) for a null one. \<open>send_timeout_\<close> has no
  initialiser.
\<close>

definition BaseClient ::
    "(ice_properties \<Rightarrow> unit res) \<Rightarrow> unit res \<Rightarrow> (string \<Rightarrow> 'p option res) \<Rightarrow> ViaInfo \<Rightarrow> string
     \<Rightarrow> 'p BaseClient res" where
  "BaseClient init session proxy via taskid =
     (let create = (\<lambda>w. HANDLE_EXCEPTION_EVENT C_EVENT_CODE_CREATE_CLIENT taskid [StrArg (vi_id via), StrArg w]) in
      res_bind
        (case str_find CHR '':'' (vi_via_address via) of
           None \<Rightarrow>
             res_bind (router_connection via taskid) (\<lambda>(props, str).
             catch_ice (res_bind (init props) (\<lambda>_. res_bind session (\<lambda>_.
               res_bind (proxy str) (\<lambda>p. Ok (str, p))))) create)
         | Some npos \<Rightarrow>
             res_bind (direct_connection via taskid npos) (\<lambda>(props, str).
             catch_ice (res_bind (init props) (\<lambda>_. res_bind (proxy str) (\<lambda>p. Ok (str, p)))) create))
        (\<lambda>(str, p).
           case p of
             None \<Rightarrow> HANDLE_EXCEPTION_EVENT C_EVENT_CODE_INVALID_PROXY taskid [StrArg (vi_id via)]
           | Some stub \<Rightarrow> Ok \<lparr>bc_task_id = taskid, bc_remote_nid = vi_id via, bc_proxy_string = str,
                             bc_stub = stub, bc_send_timeout = None\<rparr>))"

definition SetSendTimeOut :: "int \<Rightarrow> 'p BaseClient \<Rightarrow> 'p BaseClient" where
  "SetSendTimeOut t c = c\<lparr>bc_send_timeout := Some t\<rparr>"

section \<open>Properties\<close>

lemma res_bind_OkE:
  assumes "res_bind r f = Ok y"
  obtains x where "r = Ok x" "f x = Ok y"
  using assms by (auto simp: res_bind_Ok_iff)

lemma catch_ice_Ok: "catch_ice r (\<lambda>w. HANDLE_EXCEPTION_EVENT code taskid (args w)) = Ok x \<Longrightarrow> r = Ok x"
  by (auto simp: catch_ice_def split: res.splits cxx_error.splits)

lemma catch_ice_event:
  assumes "\<And>w. is_event (h w)" "is_event r \<or> (\<exists>x. r = Ok x) \<or> (\<exists>w. r = Throw (Ice_Exception w))"
  shows "is_event (catch_ice r h) \<or> (\<exists>x. catch_ice r h = Ok x)"
proof -
  consider "is_event r" | x where "r = Ok x" | w where "r = Throw (Ice_Exception w)" using assms(2) by blast
  then show ?thesis
  proof cases
    case 1
    then have "catch_ice r h = r" by (auto simp: catch_ice_def is_event_def split: res.splits cxx_error.splits)
    then show ?thesis using 1 by simp
  qed (simp_all add: catch_ice_def assms(1))
qed

text \<open>The keys are pairwise different, so later properties do not overwrite the endpoints.\<close>

lemma property_keys:
  "C_Servant_Endpoints_Key = ''IoChannel.Endpoints''" "C_Servant_AdapterId_Key = ''IoChannel.AdapterId''"
  by (simp_all add: C_Servant_Endpoints_Key_def C_Servant_AdapterId_Key_def C_Servant_Adapter_Name_def)

lemma server_props_direct:
  assumes "server_props info taskId = Ok props" "str_find CHR '':'' (ni_address info) = Some npos"
  shows "props C_Servant_Endpoints_Key = Some (protocol_of (server_is_ssl info) @ '' -h '' @
    substr (ni_address info) 0 npos @ '' -p '' @ substr (ni_address info) (npos + 1) (length (ni_address info)))"
  using assms
  by (auto simp: server_props_def server_endpoint_props_def Let_def property_keys C_MAX_SIZE_KEY_def split: if_splits)

lemma server_props_grid:
  assumes "server_props info taskId = Ok props" "str_find CHR '':'' (ni_address info) = None"
  shows "props C_Servant_AdapterId_Key = Some (adapter_identity taskId (ni_id info))"
  using assms
  by (auto simp: server_props_def server_endpoint_props_def Let_def res_bind_Ok_iff property_keys
      C_MAX_SIZE_KEY_def adapter_identity_def split: if_splits)

lemma SyncServer_Ok:
  assumes "SyncServer init activate info taskId = Ok (props, name)"
  shows "server_props info taskId = Ok props" "name = servant_identity taskId (ni_id info)"
  using assms by (auto simp: SyncServer_def BaseServer_def Let_def elim!: res_bind_OkE)

lemma router_connection_Ok:
  "router_connection via taskid = Ok (props, str) \<Longrightarrow>
   str = servant_identity taskid (vi_id via) @ ''@'' @ adapter_identity taskid (vi_id via)"
  by (auto simp: router_connection_def Let_def res_bind_Ok_iff split: if_splits)

lemma direct_connection_Ok:
  "direct_connection via taskid npos = Ok (props, str) \<Longrightarrow>
   str = servant_identity taskid (vi_id via) @ '':'' @ protocol_of (client_is_ssl via) @ '' -h '' @
     substr (vi_via_address via) 0 npos @ '' -p '' @ substr (vi_via_address via) (npos + 1) (length (vi_via_address via))"
  by (auto simp: direct_connection_def Let_def res_bind_Ok_iff)

lemma BaseClient_Ok:
  assumes "BaseClient init session proxy via taskid = Ok c"
  shows "bc_task_id c = taskid" "bc_remote_nid c = vi_id via"
    "str_find CHR '':'' (vi_via_address via) = None \<Longrightarrow>
      bc_proxy_string c = servant_identity taskid (vi_id via) @ ''@'' @ adapter_identity taskid (vi_id via)"
    "str_find CHR '':'' (vi_via_address via) = Some npos \<Longrightarrow>
      \<exists>props. direct_connection via taskid npos = Ok (props, bc_proxy_string c)"
proof -
  obtain str p where r: "(case str_find CHR '':'' (vi_via_address via) of
           None \<Rightarrow>
             res_bind (router_connection via taskid) (\<lambda>(props, str).
             catch_ice (res_bind (init props) (\<lambda>_. res_bind session (\<lambda>_.
               res_bind (proxy str) (\<lambda>p. Ok (str, p)))))
               (\<lambda>w. HANDLE_EXCEPTION_EVENT C_EVENT_CODE_CREATE_CLIENT taskid [StrArg (vi_id via), StrArg w]))
         | Some npos \<Rightarrow>
             res_bind (direct_connection via taskid npos) (\<lambda>(props, str).
             catch_ice (res_bind (init props) (\<lambda>_. res_bind (proxy str) (\<lambda>p. Ok (str, p))))
               (\<lambda>w. HANDLE_EXCEPTION_EVENT C_EVENT_CODE_CREATE_CLIENT taskid [StrArg (vi_id via), StrArg w]))) = Ok (str, p)"
      and c: "c = \<lparr>bc_task_id = taskid, bc_remote_nid = vi_id via, bc_proxy_string = str,
                   bc_stub = the p, bc_send_timeout = None\<rparr>"
    using assms by (auto simp: BaseClient_def Let_def split: option.splits elim!: res_bind_OkE)
  show "bc_task_id c = taskid" "bc_remote_nid c = vi_id via" by (simp_all add: c)
  show "bc_proxy_string c = servant_identity taskid (vi_id via) @ ''@'' @ adapter_identity taskid (vi_id via)"
    if "str_find CHR '':'' (vi_via_address via) = None"
    using r that by (auto simp: c dest!: catch_ice_Ok router_connection_Ok elim!: res_bind_OkE)
  show "\<exists>props. direct_connection via taskid npos = Ok (props, bc_proxy_string c)"
    if "str_find CHR '':'' (vi_via_address via) = Some npos"
    using r that by (auto simp: c dest!: catch_ice_Ok elim!: res_bind_OkE)
qed

lemma servant_identity_legal:
  "CHR '':'' \<notin> set (servant_identity taskId nid)" "CHR ''@'' \<notin> set (servant_identity taskId nid)"
  using FilterIllChar_legal [of "C_Servant_Id_Prefix @ taskId @ ''_'' @ nid"]
  by (auto simp: servant_identity_def C_Illegal_Strings_def)

text \<open>
  C27. Client and server name the same object. For the two ends of one node's connection, built
  from the same identifier, address and certificate setting, the proxy string the client asks
  Ice for is the identity the server registered, then, for a direct connection, a colon and the
  very endpoint the server listens on, and otherwise an at-sign and the server's adapter
  identifier. The identity contains neither separator, so the string splits in one way only.
\<close>

theorem endpoints_agree:
  assumes "SyncServer init activate info taskId = Ok (props, name)"
    "BaseClient init' session proxy via taskId = Ok c"
    "vi_id via = ni_id info" "vi_via_address via = ni_address info" "client_is_ssl via = server_is_ssl info"
  shows "CHR '':'' \<notin> set name \<and> CHR ''@'' \<notin> set name \<and>
    (if CHR '':'' \<in> set (ni_address info)
     then \<exists>ep. props C_Servant_Endpoints_Key = Some ep \<and> bc_proxy_string c = name @ '':'' @ ep
     else \<exists>ad. props C_Servant_AdapterId_Key = Some ad \<and> bc_proxy_string c = name @ ''@'' @ ad)"
proof (cases "str_find CHR '':'' (ni_address info)")
  case None
  then have "CHR '':'' \<notin> set (ni_address info)" by (simp add: str_find_None_iff)
  then show ?thesis
    using SyncServer_Ok [OF assms(1)] server_props_grid [OF _ None] BaseClient_Ok(3) [OF assms(2)] None assms(3,4)
      servant_identity_legal by simp
next
  case (Some npos)
  then have "CHR '':'' \<in> set (ni_address info)"
    using str_find_None_iff [of "CHR '':''" "ni_address info"] by simp
  then show ?thesis
    using SyncServer_Ok [OF assms(1)] server_props_direct [OF _ Some] BaseClient_Ok(4) [OF assms(2), of npos] Some assms(3-5)
      servant_identity_legal by (auto dest!: direct_connection_Ok)
qed

text \<open>
  C28. Starting a service never lets an Ice exception out: whatever the configuration, if Ice's
  own calls succeed or throw an \<open>Ice::Exception\<close>, the constructor succeeds or reports an event.
\<close>

theorem SyncServer_reports:
  assumes "\<And>p. init p = Ok () \<or> (\<exists>w. init p = Throw (Ice_Exception w))"
    "\<And>n. activate n = Ok () \<or> (\<exists>w. activate n = Throw (Ice_Exception w))"
  shows "(\<exists>s. SyncServer init activate info taskId = Ok s) \<or> is_event (SyncServer init activate info taskId)"
proof -
  have ev: "is_event (HANDLE_EXCEPTION_EVENT C_EVENT_CODE_START_SERVICE taskId [StrArg (ni_id info), StrArg w] :: unit res)" for w
    by (rule is_event_handle) (simp add: event_kinds_table)
  have p: "(\<exists>x. server_props info taskId = Ok x) \<or> is_event (server_props info taskId)"
  proof -
    have "is_event (HANDLE_EXCEPTION_EVENT C_EVENT_CODE_NO_ICEGRID taskId [StrArg (ni_id info)] :: ice_properties res)"
      "is_event (HANDLE_EXCEPTION_EVENT C_EVENT_CODE_NO_PUBLIC_IP taskId [StrArg (ni_id info)] :: ice_properties res)"
      by (rule is_event_handle, simp add: event_kinds_table)+
    then show ?thesis
      by (auto simp: server_props_def server_endpoint_props_def Let_def split: option.split)
  qed
  have "(\<exists>x. BaseServer init info taskId = Ok x) \<or> is_event (BaseServer init info taskId)"
    using p catch_ice_event [OF ev, of "init props" for props] assms(1) unfolding BaseServer_def by fastforce
  then show ?thesis
    using catch_ice_event [OF ev, of "activate n" for n] assms(2) unfolding SyncServer_def Let_def by fastforce
qed

text \<open>
  The identity of a servant is not unique to its node: a colon and an underscore in a node
  identifier give the same identity, so two such nodes of a task cannot be told apart.
\<close>

lemma servant_identity_collides:
  "servant_identity taskId (a @ '':'' @ b) = servant_identity taskId (a @ ''_'' @ b)"
  by (simp add: servant_identity_def FilterIllChar_def C_Illegal_Strings_def)

text \<open>Two ends of one node, connected directly.\<close>

definition example_info :: NodeInfo where
  "example_info = fst (CopyNodeInfo False (Node_new\<lparr>NODE_ID := ''p1'', ADDRESS := ''10.0.0.2:8000''\<rparr>)
     \<lparr>ni_id = [], ni_address = [], ni_public_ip = [], ni_via_address = [], ni_glacier2_info = IcePlugCfg_new,
      ni_ice_grid_info = IcePlugCfg_new, ni_ca_cert_path = [], ni_cert_dir = [], ni_server_key_path = [],
      ni_server_cert_path = [], ni_client_key_path = [], ni_client_cert_path = [], ni_password = [],
      ni_server_sign_key_path = [], ni_server_sign_cert_path = [], ni_server_enc_key_path = [],
      ni_server_enc_cert_path = [], ni_client_sign_key_path = [], ni_client_sign_cert_path = [],
      ni_client_enc_key_path = [], ni_client_enc_cert_path = []\<rparr> example_cfg)"

definition example_via :: ViaInfo where
  "example_via = ViaInfo_new\<lparr>vi_id := ''p1'', vi_via_address := ''10.0.0.2:8000''\<rparr>"

theorem endpoints_agree_witness:
  "\<exists>props name c ep. SyncServer (\<lambda>_. Ok ()) (\<lambda>_. Ok ()) example_info ''t1'' = Ok (props, name) \<and>
    BaseClient (\<lambda>_. Ok ()) (Ok ()) (\<lambda>s. Ok (Some s)) example_via ''t1'' = Ok c \<and>
    props C_Servant_Endpoints_Key = Some ep \<and> bc_proxy_string c = name @ '':'' @ ep"
proof -
  have f: "ni_id example_info = ''p1''" "ni_address example_info = ''10.0.0.2:8000''" "ni_ca_cert_path example_info = []"
    "vi_id example_via = ''p1''" "vi_via_address example_via = ''10.0.0.2:8000''" "vi_ca_cert_path example_via = []"
    by code_simp+
  have s: "\<exists>npos. str_find CHR '':'' ''10.0.0.2:8000'' = Some npos" by simp
  then obtain props name where S: "SyncServer (\<lambda>_. Ok ()) (\<lambda>_. Ok ()) example_info ''t1'' = Ok (props, name)"
    by (auto simp: SyncServer_def BaseServer_def server_props_def server_endpoint_props_def f Let_def catch_ice_def)
  obtain c where C: "BaseClient (\<lambda>_. Ok ()) (Ok ()) (\<lambda>s. Ok (Some s)) example_via ''t1'' = Ok c"
    using s by (auto simp: BaseClient_def direct_connection_def with_ssl_def client_is_ssl_def f Let_def catch_ice_def)
  show ?thesis
    using endpoints_agree [OF S C] S C by (simp add: f client_is_ssl_def server_is_ssl_def)
qed

theorem SyncServer_reports_witness:
  "is_event (SyncServer (\<lambda>_. Throw (Ice_Exception ''x'')) (\<lambda>_. Ok ()) example_info ''t1'')"
proof -
  have "\<nexists>s. SyncServer (\<lambda>_. Throw (Ice_Exception ''x'')) (\<lambda>_. Ok ()) example_info ''t1'' = Ok s"
    by (auto simp: SyncServer_def BaseServer_def Let_def elim!: res_bind_OkE dest!: catch_ice_Ok)
  then show ?thesis
    using SyncServer_reports [of "\<lambda>_. Throw (Ice_Exception ''x'')" "\<lambda>_. Ok ()" example_info "''t1''"] by simp
qed

end
