(* ===== verification/Ice_Stream.thy ===== *)
theory Ice_Stream
  imports Cycle_Buffer
begin

text \<open>
  How a message crosses the wire: the part of Ice's streams the sources go through
  (\<^verbatim>\<open>third_party/ice/include/Ice/OutputStream.h\<close>, \<^verbatim>\<open>InputStream.h\<close>: integers, sizes, encapsulations)
  and the generated marshalling of \<open>DataStruct\<close> and of the parameters of \<open>send\<close>
  (\<^verbatim>\<open>core/include/io_channel_ice.h\<close>, \<^verbatim>\<open>core/src/io_channel_ice.cpp\<close>). What the headers only declare,
  the reading and writing of strings and byte sequences, the default encoding and the skipping of
  optional members, is the parameter \<open>codec\<close>; the locale \<open>ice_codec\<close> states what the library
  documents about it.
\<close>

record codec =
  write_str :: "string \<Rightarrow> byte list"
  read_str :: "byte list \<Rightarrow> (string \<times> byte list) res"
  write_seq :: "byte list \<Rightarrow> byte list"
  read_seq :: "byte list \<Rightarrow> (byte list \<times> byte list) res"
  default_encoding :: "byte \<times> byte"
  supported_encoding :: "byte \<times> byte \<Rightarrow> bool"
  skip_optionals :: "byte list \<Rightarrow> byte list res"

section \<open>Integers and sizes\<close>

definition unmarshal_out_of_bounds :: cxx_error where
  "unmarshal_out_of_bounds = Ice_Exception ''UnmarshalOutOfBoundsException''"

definition ice_write_int :: "int \<Rightarrow> byte list" where
  "ice_write_int v = i32_bytes v"

definition ice_read_int :: "byte list \<Rightarrow> (int \<times> byte list) res" where
  "ice_read_int b =
     (if int (length b) < 4 then Throw unmarshal_out_of_bounds else Ok (le_i32 (take 4 b), drop 4 b))"

definition ice_read_byte :: "byte list \<Rightarrow> (byte \<times> byte list) res" where
  "ice_read_byte b = (case b of [] \<Rightarrow> Throw unmarshal_out_of_bounds | x # r \<Rightarrow> Ok (x, r))"

definition ice_write_size :: "int \<Rightarrow> byte list res" where
  "ice_write_size v =
     (if \<not> v \<ge> 0 then Throw (Undefined ''assert'')
      else if v > 254 then Ok (255 # ice_write_int v) else Ok [word_of_int v])"

definition ice_read_size :: "byte list \<Rightarrow> (int \<times> byte list) res" where
  "ice_read_size b =
     res_bind (ice_read_byte b) (\<lambda>(val, b).
     if val = 255 then
       res_bind (ice_read_int b) (\<lambda>(v, b).
       if v < 0 then Throw unmarshal_out_of_bounds else Ok (v, b))
     else Ok (uint val, b))"

section \<open>Encapsulations\<close>

text \<open>
  \<open>startEncapsulation\<close> leaves room for the length and writes the encoding; \<open>endEncapsulation\<close>
  stores the length, which counts the six bytes of the header.
\<close>

definition out_start_encaps :: "codec \<Rightarrow> byte list \<Rightarrow> nat \<times> byte list" where
  "out_start_encaps k b =
     (length b, b @ ice_write_int 0 @ [fst (default_encoding k), snd (default_encoding k)])"

definition out_end_encaps :: "nat \<Rightarrow> byte list \<Rightarrow> byte list" where
  "out_end_encaps start b =
     (let sz = to_i32 (int (length b) - int start) in
      take start b @ ice_write_int sz @ drop (start + 4) b)"

text \<open>An input stream: the bytes not read yet, and inside an encapsulation those left in it.\<close>

record encaps =
  encaps_encoding :: "byte \<times> byte"
  encaps_left :: int

definition in_start_encaps :: "codec \<Rightarrow> byte list \<Rightarrow> (encaps \<times> byte list) res" where
  "in_start_encaps k b =
     res_bind (ice_read_int b) (\<lambda>(sz, b1).
     if sz < 6 then Throw unmarshal_out_of_bounds
     else if sz > int (length b) then Throw unmarshal_out_of_bounds
     else
       res_bind (ice_read_byte b1) (\<lambda>(major, b2).
       res_bind (ice_read_byte b2) (\<lambda>(minor, b3).
       if \<not> supported_encoding k (major, minor) then Throw (Ice_Exception ''UnsupportedEncodingException'')
       else Ok (\<lparr>encaps_encoding = (major, minor),
                 encaps_left = int (length b) - sz\<rparr>, b3))))"

text \<open>
  At the end the position must be the end of the encapsulation: \<open>encaps_left\<close> bytes of the
  stream remain. Encoding 1.0 tolerates one more byte.
\<close>

definition in_end_encaps :: "codec \<Rightarrow> encaps \<Rightarrow> byte list \<Rightarrow> byte list res" where
  "in_end_encaps k e b =
     (if encaps_encoding e \<noteq> (1, 0) then
        res_bind (skip_optionals k b) (\<lambda>b.
        if int (length b) \<noteq> encaps_left e then Throw (Ice_Exception ''EncapsulationException'')
        else Ok b)
      else if int (length b) \<noteq> encaps_left e then
        if int (length b) - 1 \<noteq> encaps_left e then Throw (Ice_Exception ''EncapsulationException'')
        else Ok (tl b)
      else Ok b)"

section \<open>DataStruct and the parameters of send\<close>

record DataStruct =
  ds_msgid :: string
  ds_nodeid :: string
  ds_data :: "byte list"

definition write_DataStruct :: "codec \<Rightarrow> DataStruct \<Rightarrow> byte list \<Rightarrow> byte list" where
  "write_DataStruct k v b =
     b @ write_str k (ds_msgid v) @ write_str k (ds_nodeid v) @ write_seq k (ds_data v)"

definition read_DataStruct :: "codec \<Rightarrow> byte list \<Rightarrow> (DataStruct \<times> byte list) res" where
  "read_DataStruct k b =
     res_bind (read_str k b) (\<lambda>(m, b).
     res_bind (read_str k b) (\<lambda>(n, b).
     res_bind (read_seq k b) (\<lambda>(d, b).
     Ok (\<lparr>ds_msgid = m, ds_nodeid = n, ds_data = d\<rparr>, b))))"

text \<open>\<open>_iceI_begin_send\<close> and \<open>_iceD_send\<close> of the generated proxy and servant.\<close>

definition write_send_params :: "codec \<Rightarrow> string \<Rightarrow> string \<Rightarrow> byte list \<Rightarrow> byte list" where
  "write_send_params k nodeid msgid data =
     (let (start, b) = out_start_encaps k [] in
      out_end_encaps start (b @ write_str k nodeid @ write_str k msgid @ write_seq k data))"

definition read_send_params :: "codec \<Rightarrow> byte list \<Rightarrow> (string \<times> string \<times> byte list) res" where
  "read_send_params k inp =
     res_bind (in_start_encaps k inp) (\<lambda>(e, b).
     res_bind (read_str k b) (\<lambda>(nodeid, b).
     res_bind (read_str k b) (\<lambda>(msgid, b).
     res_bind (read_seq k b) (\<lambda>(data, b).
     res_bind (in_end_encaps k e b) (\<lambda>b. Ok (nodeid, msgid, data))))))"

text \<open>The encapsulation \<open>SyncClient::send\<close> builds for a dynamic call.\<close>

definition encode_DataStruct :: "codec \<Rightarrow> DataStruct \<Rightarrow> byte list" where
  "encode_DataStruct k v =
     (let (start, b) = out_start_encaps k [] in out_end_encaps start (write_DataStruct k v b))"

section \<open>The contract of the library's codec\<close>

text \<open>
  What Ice documents: what is written is what is read, the default encoding is supported, and an
  encapsulation that ends where the data ends has no optional members to skip.
\<close>

locale ice_codec =
  fixes k :: codec
  assumes str_law: "length s < 2 ^ 31 \<Longrightarrow> read_str k (write_str k s @ r) = Ok (s, r)"
    and seq_law: "length d < 2 ^ 31 \<Longrightarrow> read_seq k (write_seq k d @ r) = Ok (d, r)"
    and enc_law: "supported_encoding k (default_encoding k)"
    and skip_law: "skip_optionals k [] = Ok []"
begin

lemma encaps_roundtrip:
  assumes "6 + length body < 2 ^ 31"
  shows "in_start_encaps k (out_end_encaps (fst (out_start_encaps k []))
      (snd (out_start_encaps k []) @ body))
    = Ok (\<lparr>encaps_encoding = default_encoding k, encaps_left = 0\<rparr>, body)"
proof -
  let ?sz = "6 + int (length body)"
  have sz: "to_i32 ?sz = ?sz" using assms by (simp add: i32_ok_def)
  have "out_end_encaps (fst (out_start_encaps k [])) (snd (out_start_encaps k []) @ body)
      = i32_bytes ?sz @ [fst (default_encoding k), snd (default_encoding k)] @ body"
    using sz by (simp add: out_end_encaps_def out_start_encaps_def ice_write_int_def Let_def)
  moreover have "le_i32 (i32_bytes ?sz) = ?sz" using assms by (intro le_i32_bytes) auto
  ultimately show ?thesis
    using enc_law by (simp add: in_start_encaps_def ice_read_int_def ice_read_byte_def)
qed

lemma end_roundtrip:
  "in_end_encaps k \<lparr>encaps_encoding = default_encoding k, encaps_left = 0\<rparr> [] = Ok []"
  by (simp add: in_end_encaps_def skip_law)

lemma DataStruct_roundtrip:
  assumes "length (ds_msgid v) < 2 ^ 31" "length (ds_nodeid v) < 2 ^ 31" "length (ds_data v) < 2 ^ 31"
    "length (encode_DataStruct k v) < 2 ^ 31"
  shows "\<exists>e b. in_start_encaps k (encode_DataStruct k v) = Ok (e, b) \<and>
    read_DataStruct k b = Ok (v, []) \<and> in_end_encaps k e [] = Ok []"
proof -
  let ?body = "write_DataStruct k v []"
  have enc: "encode_DataStruct k v = out_end_encaps (fst (out_start_encaps k [])) (snd (out_start_encaps k []) @ ?body)"
    by (simp add: encode_DataStruct_def write_DataStruct_def split: prod.split)
  have "6 + length ?body < 2 ^ 31"
    using assms(4) unfolding enc by (simp add: out_end_encaps_def out_start_encaps_def ice_write_int_def Let_def)
  moreover have "read_DataStruct k ?body = Ok (v, [])"
    using str_law [OF assms(1), of "write_str k (ds_nodeid v) @ write_seq k (ds_data v)"]
      str_law [OF assms(2)] seq_law [OF assms(3), of "[]"]
    by (simp add: read_DataStruct_def write_DataStruct_def)
  ultimately show ?thesis using encaps_roundtrip [of ?body] end_roundtrip by (simp add: enc)
qed

lemma send_params_encaps:
  assumes "length (write_send_params k nodeid msgid data) < 2 ^ 31"
  shows "in_start_encaps k (write_send_params k nodeid msgid data) =
    Ok (\<lparr>encaps_encoding = default_encoding k, encaps_left = 0\<rparr>, write_str k nodeid @ write_str k msgid @ write_seq k data)"
proof -
  let ?body = "write_str k nodeid @ write_str k msgid @ write_seq k data"
  have enc: "write_send_params k nodeid msgid data
      = out_end_encaps (fst (out_start_encaps k [])) (snd (out_start_encaps k []) @ ?body)"
    by (simp add: write_send_params_def split: prod.split)
  have "6 + length ?body < 2 ^ 31"
    using assms unfolding enc by (simp add: out_end_encaps_def out_start_encaps_def ice_write_int_def Let_def)
  from encaps_roundtrip [OF this] show ?thesis by (simp add: enc)
qed

lemma send_params_roundtrip:
  assumes "length nodeid < 2 ^ 31" "length msgid < 2 ^ 31" "length data < 2 ^ 31"
    "length (write_send_params k nodeid msgid data) < 2 ^ 31"
  shows "read_send_params k (write_send_params k nodeid msgid data) = Ok (nodeid, msgid, data)"
  using str_law [OF assms(1), of "write_str k msgid @ write_seq k data"]
    str_law [OF assms(2)] seq_law [OF assms(3), of "[]"] end_roundtrip
  by (simp add: read_send_params_def send_params_encaps [OF assms(4)])

end

section \<open>An instance: the standard encoding\<close>

text \<open>
  A string or a byte sequence as its size followed by its bytes, the encoding 1.1, and nothing
  optional: the instance the locale is interpreted on.
\<close>

definition size_prefixed :: "byte list \<Rightarrow> byte list" where
  "size_prefixed d = (case ice_write_size (to_i32 (int (length d))) of Ok b \<Rightarrow> b @ d | _ \<Rightarrow> [])"

definition read_size_prefixed :: "byte list \<Rightarrow> (byte list \<times> byte list) res" where
  "read_size_prefixed b =
     res_bind (ice_read_size b) (\<lambda>(n, b).
     if n > int (length b) then Throw unmarshal_out_of_bounds
     else Ok (take (nat n) b, drop (nat n) b))"

definition bytes_of_string :: "string \<Rightarrow> byte list" where
  "bytes_of_string s = map (\<lambda>c. word_of_nat (of_char c)) s"

definition string_of_bytes :: "byte list \<Rightarrow> string" where
  "string_of_bytes b = map (\<lambda>x. char_of (unat x)) b"

definition standard_codec :: codec where
  "standard_codec =
     \<lparr>write_str = \<lambda>s. size_prefixed (bytes_of_string s),
      read_str = \<lambda>b. res_bind (read_size_prefixed b) (\<lambda>(s, b). Ok (string_of_bytes s, b)),
      write_seq = size_prefixed, read_seq = read_size_prefixed,
      default_encoding = (1, 1), supported_encoding = (\<lambda>e. e \<in> {(1, 0), (1, 1)}),
      skip_optionals = Ok\<rparr>"

lemma string_of_bytes_of_string: "string_of_bytes (bytes_of_string s) = s"
proof -
  have "of_char c < (256 :: nat)" for c :: char by (cases c) (simp add: of_char_def)
  then have "unat (word_of_nat (of_char c) :: byte) = of_char c" for c
    by (simp add: unsigned_of_nat take_bit_nat_def)
  then show ?thesis by (simp add: string_of_bytes_def bytes_of_string_def comp_def)
qed

lemma size_prefixed_roundtrip:
  assumes "length d < 2 ^ 31"
  shows "read_size_prefixed (size_prefixed d @ r) = Ok (d, r)"
proof (cases "length d > 254")
  case True
  have "to_i32 (int (length d)) = int (length d)" using assms by (simp add: i32_ok_def)
  moreover have "le_i32 (i32_bytes (int (length d))) = int (length d)" using assms by (intro le_i32_bytes) auto
  ultimately show ?thesis
    using True by (simp add: size_prefixed_def ice_write_size_def ice_write_int_def read_size_prefixed_def
      ice_read_size_def ice_read_byte_def ice_read_int_def)
next
  case False
  have i: "to_i32 (int (length d)) = int (length d)" using assms by (simp add: i32_ok_def)
  have u: "uint (word_of_int (int (length d)) :: byte) = int (length d)"
    using False uint_byte_of_nat [of "length d"] by simp
  then have "(word_of_int (int (length d)) :: byte) \<noteq> 255"
  proof -
    have "uint (255 :: byte) = 255" by simp
    then show ?thesis using u False by auto
  qed
  then show ?thesis
    using False i u by (simp add: size_prefixed_def ice_write_size_def read_size_prefixed_def
      ice_read_size_def ice_read_byte_def)
qed

interpretation std: ice_codec standard_codec
proof unfold_locales
  fix s :: string and r
  assume "length s < 2 ^ 31"
  then have "length (bytes_of_string s) < 2 ^ 31" by (simp add: bytes_of_string_def)
  from size_prefixed_roundtrip [OF this]
  show "read_str standard_codec (write_str standard_codec s @ r) = Ok (s, r)"
    by (simp add: standard_codec_def string_of_bytes_of_string)
qed (simp_all add: standard_codec_def size_prefixed_roundtrip)

end
