(* ===== verification/Work_Queue.thy ===== *)
theory Work_Queue
  imports Client_Connection
begin

text \<open>
  \<^verbatim>\<open>core/include/WorkQueue.h\<close> and \<^verbatim>\<open>core/src/WorkQueue.cc\<close> (build \<open>ASYNC_SERVER\<close>): the thread that
  moves what one remote node sent from a list of callbacks to its \<open>ClientConnection\<close>. The monitor
  serialises the operations, so a step is one critical section: a call of \<open>add\<close> or \<open>destroy\<close>
  while the lock is free, or the worker thread's progress between two points where it gives the
  lock up. A callback \<open>AMD_IoChannel_sendPtr\<close> is a request number; answering it is an event.
\<close>

record CallbackEntry =
  entry_cb :: nat
  entry_msgid :: string
  entry_data :: "byte list"

text \<open>
  Where the worker thread is: not started; started but without the lock; in the loop of \<open>run\<close>
  with the lock; inside \<open>_monitor.wait()\<close>, not notified; notified, on its way back to the lock;
  past the end of \<open>run\<close>.
\<close>

datatype worker = Created | Starting | Looping | Waiting | Woken | Finished

record WorkQueue =
  wq_callbacks :: "CallbackEntry list"
  wq_done :: bool
  wq_worker :: worker
  wq_conn :: "byte list list ClientConnection"

text \<open>
  The events: the arrival of a request, its answers \<open>cb->ice_response(0)\<close> and
  \<open>cb->ice_exception(SendDataException())\<close>, an entry put on the list, and the write of an entry
  to the connection.
\<close>

datatype wq_event =
    Request nat
  | IceResponse nat int
  | IceException nat
  | Enqueued string "byte list"
  | Stored string "byte list"

definition wq_new :: "byte list list ClientConnection \<Rightarrow> WorkQueue" where
  "wq_new conn = \<lparr>wq_callbacks = [], wq_done = False, wq_worker = Created, wq_conn = conn\<rparr>"

text \<open>\<open>_monitor.notify()\<close> wakes the worker if it waits, and is without effect otherwise.\<close>

definition monitor_notify :: "WorkQueue \<Rightarrow> WorkQueue" where
  "monitor_notify q = (if wq_worker q = Waiting then q\<lparr>wq_worker := Woken\<rparr> else q)"

definition wq_add :: "nat \<Rightarrow> string \<Rightarrow> byte list \<Rightarrow> WorkQueue \<Rightarrow> wq_event list \<times> WorkQueue" where
  "wq_add cb msgid data q =
     (if \<not> wq_done q then
        let q = (if length (wq_callbacks q) = 0 then monitor_notify q else q) in
        ([IceResponse cb 0, Enqueued msgid data],
         q\<lparr>wq_callbacks := wq_callbacks q @ [\<lparr>entry_cb = cb, entry_msgid = msgid, entry_data = data\<rparr>]\<rparr>)
      else ([IceException cb], q))"

definition wq_destroy :: "WorkQueue \<Rightarrow> WorkQueue" where
  "wq_destroy q = monitor_notify (q\<lparr>wq_done := True, wq_callbacks := []\<rparr>)"

text \<open>The second \<open>if\<close> of the loop body (lines 22-35).\<close>

definition wq_body :: "WorkQueue \<Rightarrow> wq_event list \<times> WorkQueue" where
  "wq_body q =
     (if \<not> wq_done q \<and> length (wq_callbacks q) \<noteq> 0 then
        let e = hd (wq_callbacks q) in
        ([Stored (entry_msgid e) (entry_data e)],
         q\<lparr>wq_conn := conn_write_q (entry_msgid e) (entry_data e) (wq_conn q),
           wq_callbacks := tl (wq_callbacks q)\<rparr>)
      else ([], q))"

text \<open>
  The worker's own steps: taking the lock for the first time; one pass of the \<open>while\<close> loop, which
  ends in the wait when there is nothing to do; the rest of a pass after the wait; leaving the
  loop, with the exceptions for outstanding requests.
\<close>

definition wq_work :: "WorkQueue \<Rightarrow> (wq_event list \<times> WorkQueue) option" where
  "wq_work q =
     (case wq_worker q of
        Starting \<Rightarrow> Some ([], q\<lparr>wq_worker := Looping\<rparr>)
      | Looping \<Rightarrow>
          if wq_done q then
            Some (map (\<lambda>e. IceException (entry_cb e)) (wq_callbacks q), q\<lparr>wq_worker := Finished\<rparr>)
          else if length (wq_callbacks q) = 0 then Some ([], q\<lparr>wq_worker := Waiting\<rparr>)
          else Some (wq_body q)
      | Woken \<Rightarrow> Some (wq_body (q\<lparr>wq_worker := Looping\<rparr>))
      | _ \<Rightarrow> None)"

text \<open>
  A step of the system, with its events. Calls of other threads need the lock, which the worker
  holds exactly while it loops. A receiver may take messages from the connection at any time
  (\<open>Take\<close>); a wait may return without a notification (\<open>Spurious\<close>).
\<close>

inductive wq_step :: "WorkQueue \<Rightarrow> wq_event list \<Rightarrow> WorkQueue \<Rightarrow> bool" where
  Start: "wq_worker q = Created \<Longrightarrow> wq_step q [] (q\<lparr>wq_worker := Starting\<rparr>)"
| Work: "wq_work q = Some (evs, q') \<Longrightarrow> wq_step q evs q'"
| Add: "wq_worker q \<noteq> Looping \<Longrightarrow> wq_add cb msgid data q = (evs, q') \<Longrightarrow> wq_step q (Request cb # evs) q'"
| Destroy: "wq_worker q \<noteq> Looping \<Longrightarrow> wq_step q [] (wq_destroy q)"
| Take: "conn_try_q m mem (wq_conn q) = Ok (Some (k, mem', c')) \<Longrightarrow> wq_step q [] (q\<lparr>wq_conn := c'\<rparr>)"
| Spurious: "wq_worker q = Waiting \<Longrightarrow> wq_step q [] (q\<lparr>wq_worker := Woken\<rparr>)"

inductive_cases wq_stepE: "wq_step q evs q'"

inductive wq_trace :: "WorkQueue \<Rightarrow> wq_event list \<Rightarrow> WorkQueue \<Rightarrow> bool" where
  Trace_refl: "wq_trace q [] q"
| Trace_step: "wq_trace q evs q1 \<Longrightarrow> wq_step q1 evs' q2 \<Longrightarrow> wq_trace q (evs @ evs') q2"

lemma wq_trace_inv:
  assumes "wq_trace q evs q'" "P q" "\<And>q evs q'. wq_step q evs q' \<Longrightarrow> P q \<Longrightarrow> P q'"
  shows "P q'"
  using assms by (induction rule: wq_trace.induct) auto


text \<open>What a history says: the requests made, the answers given, what was enqueued and stored.\<close>

definition requests :: "wq_event list \<Rightarrow> nat list" where
  "requests evs = concat (map (\<lambda>e. case e of Request cb \<Rightarrow> [cb] | _ \<Rightarrow> []) evs)"

definition answers :: "wq_event list \<Rightarrow> nat list" where
  "answers evs = concat (map (\<lambda>e. case e of IceResponse cb _ \<Rightarrow> [cb] | IceException cb \<Rightarrow> [cb] | _ \<Rightarrow> []) evs)"

definition enqueued :: "wq_event list \<Rightarrow> (string \<times> byte list) list" where
  "enqueued evs = concat (map (\<lambda>e. case e of Enqueued m d \<Rightarrow> [(m, d)] | _ \<Rightarrow> []) evs)"

definition stored :: "wq_event list \<Rightarrow> (string \<times> byte list) list" where
  "stored evs = concat (map (\<lambda>e. case e of Stored m d \<Rightarrow> [(m, d)] | _ \<Rightarrow> []) evs)"

lemmas history_defs = requests_def answers_def enqueued_def stored_def

lemma history_append:
  "requests (xs @ ys) = requests xs @ requests ys" "answers (xs @ ys) = answers xs @ answers ys"
  "enqueued (xs @ ys) = enqueued xs @ enqueued ys" "stored (xs @ ys) = stored xs @ stored ys"
  by (simp_all add: history_defs)

definition pending_entries :: "WorkQueue \<Rightarrow> (string \<times> byte list) list" where
  "pending_entries q = map (\<lambda>e. (entry_msgid e, entry_data e)) (wq_callbacks q)"

text \<open>
  The invariant: a waiting worker has nothing to do and no end to see, so no notification has
  been lost; after \<open>destroy\<close> the list stays empty; a finished worker has been told to end.
\<close>

definition wq_ok :: "WorkQueue \<Rightarrow> bool" where
  "wq_ok q \<longleftrightarrow> (wq_worker q = Waiting \<longrightarrow> wq_callbacks q = [] \<and> \<not> wq_done q) \<and>
     (wq_done q \<longrightarrow> wq_callbacks q = []) \<and> (wq_worker q = Finished \<longrightarrow> wq_done q)"

lemmas wq_defs = wq_work_def wq_body_def wq_add_def wq_destroy_def monitor_notify_def

lemma wq_new_ok: "wq_ok (wq_new conn)"
  by (simp add: wq_ok_def wq_new_def)

lemma wq_step_ok: "wq_step q evs q' \<Longrightarrow> wq_ok q \<Longrightarrow> wq_ok q'"
  by (erule wq_stepE) (auto simp: wq_ok_def wq_defs Let_def split: worker.splits if_splits)

lemma wq_trace_ok: "wq_trace q evs q' \<Longrightarrow> wq_ok q \<Longrightarrow> wq_ok q'"
  by (rule wq_trace_inv [where P = wq_ok]) (auto intro: wq_step_ok)

text \<open>What one step does to the histories.\<close>

lemma wq_step_answers:
  assumes "wq_step q evs q'" "wq_ok q"
  shows "answers evs = requests evs"
  using assms
  by (elim wq_stepE) (auto simp: wq_ok_def wq_defs history_defs Let_def split: worker.splits if_splits)

lemma wq_step_pending:
  assumes "wq_step q evs q'" "\<not> wq_done q'"
  shows "stored evs @ pending_entries q' = pending_entries q @ enqueued evs \<and> \<not> wq_done q"
  using assms
  by (elim wq_stepE)
    (auto simp: wq_defs history_defs pending_entries_def Let_def neq_Nil_conv
      split: worker.splits if_splits)

lemma wq_step_done:
  assumes "wq_step q evs q'" "wq_done q"
  shows "wq_done q' \<and> stored evs = [] \<and> enqueued evs = []"
  using assms
  by (elim wq_stepE) (auto simp: wq_defs history_defs Let_def split: worker.splits if_splits)

lemma wq_step_destroyed:
  assumes "wq_step q evs q'" "wq_done q'" "\<not> wq_done q"
  shows "stored evs = [] \<and> enqueued evs = []"
  using assms
  by (elim wq_stepE) (auto simp: wq_defs history_defs Let_def split: worker.splits if_splits)

section \<open>Properties of the work queue\<close>

text \<open>The worker running alone, for at most \<open>n\<close> of its steps.\<close>

fun wq_iterate :: "nat \<Rightarrow> WorkQueue \<Rightarrow> wq_event list \<times> WorkQueue" where
  "wq_iterate 0 q = ([], q)"
| "wq_iterate (Suc n) q =
     (case wq_work q of
        None \<Rightarrow> ([], q)
      | Some (e, q1) \<Rightarrow> let (es, q2) = wq_iterate n q1 in (e @ es, q2))"

lemma wq_iterate_step:
  "wq_work q = Some (e, q1) \<Longrightarrow> wq_iterate (Suc n) q = (e @ fst (wq_iterate n q1), snd (wq_iterate n q1))"
  by (simp split: prod.splits)

lemma wq_iterate_stuck: "wq_work q = None \<Longrightarrow> wq_iterate n q = ([], q)"
  by (cases n) simp_all

definition wq_drained :: "WorkQueue \<Rightarrow> wq_event list \<times> WorkQueue \<Rightarrow> bool" where
  "wq_drained q r \<longleftrightarrow> wq_worker (snd r) = Waiting \<and> wq_callbacks (snd r) = [] \<and>
     \<not> wq_done (snd r) \<and> stored (fst r) = pending_entries q \<and>
     (\<forall>m. queued (wq_conn (snd r)) m = queued (wq_conn q) m @ msgs_for m (pending_entries q))"

lemma wq_drain_looping:
  assumes "wq_worker q = Looping" "\<not> wq_done q" "length (wq_callbacks q) < n"
  shows "wq_drained q (wq_iterate n q)"
  using assms
proof (induction n arbitrary: q)
  case (Suc n)
  show ?case
  proof (cases "wq_callbacks q")
    case Nil
    then have "wq_work q = Some ([], q\<lparr>wq_worker := Waiting\<rparr>)"
      using Suc.prems by (simp add: wq_work_def)
    then show ?thesis
      using Nil Suc.prems
      by (simp add: wq_iterate_stuck wq_work_def wq_drained_def history_defs pending_entries_def)
  next
    case (Cons e es)
    let ?q1 = "q\<lparr>wq_conn := conn_write_q (entry_msgid e) (entry_data e) (wq_conn q), wq_callbacks := es\<rparr>"
    have w: "wq_work q = Some ([Stored (entry_msgid e) (entry_data e)], ?q1)"
      using Suc.prems by (simp add: wq_work_def wq_body_def Let_def Cons)
    have "wq_drained ?q1 (wq_iterate n ?q1)" using Suc Cons by auto
    then show ?thesis
      by (auto simp: wq_iterate_step [OF w] wq_drained_def history_append conn_write_q_queued
        pending_entries_def Cons simp del: wq_iterate.simps) (simp_all add: history_defs)
  qed
qed simp

text \<open>Histories from any state that satisfies the invariant.\<close>

lemma wq_trace_answers: "wq_trace q evs q' \<Longrightarrow> wq_ok q \<Longrightarrow> answers evs = requests evs"
proof (induction rule: wq_trace.induct)
  case (Trace_step q evs q1 evs' q2)
  then show ?case using wq_step_answers [OF Trace_step(2)] wq_trace_ok [OF Trace_step(1)] by (simp add: history_append)
qed (simp add: history_defs)

lemma wq_trace_fifo:
  assumes "wq_trace q evs q'"
  shows "(\<not> wq_done q' \<longrightarrow> pending_entries q @ enqueued evs = stored evs @ pending_entries q') \<and>
    (\<exists>lost. pending_entries q @ enqueued evs = stored evs @ lost)"
  using assms
proof (induction rule: wq_trace.induct)
  case (Trace_step q evs q1 evs' q2)
  show ?case
  proof (cases "wq_done q2")
    case True
    then have "stored evs' = [] \<and> enqueued evs' = []"
      using wq_step_done [OF Trace_step(2)] wq_step_destroyed [OF Trace_step(2)] by blast
    then show ?thesis using Trace_step(3) True by (simp add: history_append)
  next
    case False
    have n: "stored evs' @ pending_entries q2 = pending_entries q1 @ enqueued evs'" "\<not> wq_done q1"
      using wq_step_pending [OF Trace_step(2) False] by simp_all
    then have "pending_entries q @ enqueued evs @ enqueued evs' = stored evs @ stored evs' @ pending_entries q2"
      using Trace_step(3) by (metis append.assoc)
    then show ?thesis by (auto simp: history_append)
  qed
qed (simp add: history_defs)

text \<open>
  C15. Every request is answered exactly once: in every history of a work queue, whatever the
  interleaving of callers, worker, receivers, spurious wake-ups and \<open>destroy\<close>, the answers given
  are the requests made, in order. In particular the final loop of \<open>run\<close> that answers the
  outstanding requests never finds one.
\<close>

theorem wq_answers_once:
  assumes "wq_trace (wq_new conn) evs q"
  shows "answers evs = requests evs"
  by (rule wq_trace_answers [OF assms wq_new_ok])

text \<open>
  The queue is first-in first-out. As long as it has not been destroyed, the entries accepted
  are those already stored in the connection followed by those pending; afterwards the stored
  ones are still a prefix of the accepted ones.
\<close>

lemma wq_fifo:
  assumes "wq_trace (wq_new conn) evs q"
  shows "(\<not> wq_done q \<longrightarrow> enqueued evs = stored evs @ pending_entries q) \<and>
    (\<exists>lost. enqueued evs = stored evs @ lost)"
  using wq_trace_fifo [OF assms] by (simp add: wq_new_def pending_entries_def)

text \<open>
  C16. No wake-up is lost: whenever the worker waits, the list is empty and the queue is not being
  destroyed; so a started worker with something to do can always take a step.
\<close>

theorem wq_no_lost_wakeup:
  assumes "wq_trace (wq_new conn) evs q"
  shows "(wq_worker q = Waiting \<longrightarrow> wq_callbacks q = [] \<and> \<not> wq_done q) \<and>
    (wq_worker q \<notin> {Created, Finished} \<and> (wq_callbacks q \<noteq> [] \<or> wq_done q) \<longrightarrow>
      (\<exists>evs' q'. wq_work q = Some (evs', q')))"
  using wq_trace_ok [OF assms wq_new_ok] by (cases "wq_worker q") (auto simp: wq_ok_def wq_work_def)

text \<open>
  C17. The worker drains the queue: running alone from any point where it has been started or
  woken, it stores all pending entries, in order, under their identifiers, within two steps more
  than there are entries, and goes back to waiting.
\<close>

theorem wq_drains:
  assumes "wq_worker q \<in> {Starting, Looping, Woken}" "\<not> wq_done q" "length (wq_callbacks q) + 2 \<le> n"
  shows "wq_drained q (wq_iterate n q)"
proof -
  obtain k where n: "n = Suc k" using assms(3) by (cases n) auto
  consider "wq_worker q = Looping" | "wq_worker q = Starting" | "wq_worker q = Woken" using assms(1) by auto
  then show ?thesis
  proof cases
    case 1
    then show ?thesis using assms by (intro wq_drain_looping) auto
  next
    case 2
    then have w: "wq_work q = Some ([], q\<lparr>wq_worker := Looping\<rparr>)" by (simp add: wq_work_def)
    have "wq_drained (q\<lparr>wq_worker := Looping\<rparr>) (wq_iterate k (q\<lparr>wq_worker := Looping\<rparr>))"
      using assms n by (intro wq_drain_looping) auto
    then show ?thesis by (simp add: wq_drained_def pending_entries_def n wq_iterate_step [OF w] del: wq_iterate.simps)
  next
    case 3
    let ?q = "q\<lparr>wq_worker := Looping\<rparr>"
    have w: "wq_work q = Some (wq_body ?q)" using 3 by (simp add: wq_work_def)
    have "wq_drained ?q (wq_iterate n ?q)" using assms by (intro wq_drain_looping) auto
    moreover have "wq_iterate n ?q = wq_iterate n q" if "wq_callbacks q \<noteq> []"
      using that assms(2) w by (simp add: n wq_work_def wq_body_def)
    moreover have "wq_drained ?q (wq_iterate k ?q)" using assms n by (intro wq_drain_looping) auto
    moreover have "wq_iterate n q = wq_iterate k ?q" if "wq_callbacks q = []"
      using that w by (simp add: n wq_body_def)
    ultimately show ?thesis by (cases "wq_callbacks q = []") (simp_all add: wq_drained_def pending_entries_def)
  qed
qed

text \<open>
  What has been acknowledged may be lost: nothing is stored any more once \<open>destroy\<close> has
  been called, in any continuation, although \<open>add\<close> answers a request with success before the
  entry is stored.
\<close>

lemma wq_destroy_drops:
  assumes "wq_trace (wq_destroy q) evs q'"
  shows "stored evs = [] \<and> enqueued evs = []"
proof -
  have "wq_done q' \<and> stored evs = [] \<and> enqueued evs = []"
    using assms
  proof (induction "wq_destroy q" evs q' rule: wq_trace.induct)
    case Trace_refl
    show ?case by (simp add: wq_destroy_def monitor_notify_def history_defs)
  next
    case (Trace_step evs q1 evs' q2)
    then show ?case using wq_step_done [OF Trace_step(3)] by (simp add: history_append)
  qed
  then show ?thesis by simp
qed

text \<open>A short history: started, one entry accepted, the worker not yet at the lock, destroyed.\<close>

definition wq_started :: WorkQueue where
  "wq_started = (wq_new (conn_new ''n''))\<lparr>wq_worker := Starting\<rparr>"

definition wq_loaded :: WorkQueue where
  "wq_loaded = snd (wq_add 7 ''a'' [1] wq_started)"

lemma wq_loaded_eq:
  "wq_add 7 ''a'' [1] wq_started = ([IceResponse 7 0, Enqueued ''a'' [1]], wq_loaded)"
  "wq_loaded = \<lparr>wq_callbacks = [\<lparr>entry_cb = 7, entry_msgid = ''a'', entry_data = [1]\<rparr>], wq_done = False,
                wq_worker = Starting, wq_conn = conn_new ''n''\<rparr>"
  by (simp_all add: wq_loaded_def wq_add_def wq_started_def wq_new_def monitor_notify_def Let_def)

lemma wq_loaded_trace:
  "wq_trace (wq_new (conn_new ''n'')) [Request 7, IceResponse 7 0, Enqueued ''a'' [1]] wq_loaded"
proof -
  have "wq_trace (wq_new (conn_new ''n'')) ([] @ []) wq_started"
    unfolding wq_started_def by (rule Trace_step [OF Trace_refl Start]) (simp add: wq_new_def)
  moreover have "wq_step wq_started [Request 7, IceResponse 7 0, Enqueued ''a'' [1]] wq_loaded"
    by (rule Add [OF _ wq_loaded_eq(1)]) (simp add: wq_started_def)
  ultimately show ?thesis using Trace_step by fastforce
qed

theorem wq_answers_once_witness:
  "answers [Request 7, IceResponse 7 0, Enqueued ''a'' [1]] = [7]"
  using wq_answers_once [OF wq_loaded_trace] by (simp add: requests_def)

lemma wq_fifo_example:
  "enqueued [Request 7, IceResponse 7 0, Enqueued ''a'' [1]] = pending_entries wq_loaded"
  using wq_fifo [OF wq_loaded_trace]
  by (simp add: stored_def wq_loaded_eq(2))

theorem wq_no_lost_wakeup_witness: "\<exists>evs' q'. wq_work wq_loaded = Some (evs', q')"
  using wq_no_lost_wakeup [OF wq_loaded_trace]
  by (simp add: wq_loaded_eq(2))

theorem wq_drains_witness: "queued (wq_conn (snd (wq_iterate 3 wq_loaded))) ''a'' = [[1]]"
proof -
  have "wq_drained wq_loaded (wq_iterate 3 wq_loaded)"
    by (rule wq_drains) (simp_all add: wq_loaded_eq(2))
  then show ?thesis
    by (simp add: wq_drained_def del: wq_iterate.simps)
      (simp add: pending_entries_def queued_def conn_new_def wq_loaded_eq(2))
qed

lemma wq_destroy_drops_example:
  "fst (wq_add 7 ''a'' [1] wq_started) = [IceResponse 7 0, Enqueued ''a'' [1]] \<and>
   wq_worker (snd (wq_iterate 2 (wq_destroy wq_loaded))) = Finished \<and>
   stored (fst (wq_iterate 2 (wq_destroy wq_loaded))) = []"
proof -
  let ?q = "wq_destroy wq_loaded"
  have w: "wq_work ?q = Some ([], ?q\<lparr>wq_worker := Looping\<rparr>)"
      "wq_work (?q\<lparr>wq_worker := Looping\<rparr>) = Some ([], ?q\<lparr>wq_worker := Finished\<rparr>)"
    by (simp_all add: wq_work_def wq_destroy_def monitor_notify_def wq_loaded_eq(2))
  then have i: "wq_iterate 2 ?q = ([], ?q\<lparr>wq_worker := Finished\<rparr>)" by (simp add: eval_nat_numeral)
  have "wq_trace ?q (([] @ []) @ []) (?q\<lparr>wq_worker := Finished\<rparr>)"
    by (rule Trace_step [OF Trace_step [OF Trace_refl Work [OF w(1)]] Work [OF w(2)]])
  from wq_destroy_drops [OF this] show ?thesis by (simp add: i wq_loaded_eq(1))
qed

end
