(* ===== verification/Io_Servant.thy ===== *)
theory Io_Servant
  imports Ice_Stream Work_Queue
begin

text \<open>
  The servant a node offers to its peers: \<^verbatim>\<open>core/src/IoChannelI.cc\<close> in its three compilable builds
  (dynamic calls, static calls with a synchronous server, static calls with an asynchronous one)
  and the dispatch the Slice compiler generates for it (\<^verbatim>\<open>core/src/io_channel_ice.cpp\<close>). \<open>conns\<close> is
  \<open>*ptr_client_conn_map_\<close>, the connections by sender; \<open>wr\<close> is \<open>ClientConnection::write\<close> of
  either build.
\<close>

section \<open>Requests\<close>

definition RET_SUCCEED_CODE :: int where
  "RET_SUCCEED_CODE = 0"

definition store_from ::
    "(string \<Rightarrow> byte list \<Rightarrow> 'c \<Rightarrow> 'c res) \<Rightarrow> string \<Rightarrow> string \<Rightarrow> byte list \<Rightarrow> (string \<rightharpoonup> 'c)
     \<Rightarrow> (string \<rightharpoonup> 'c) res" where
  "store_from wr nodeid msgid data conns =
     (case conns nodeid of
        None \<Rightarrow> Ok conns
      | Some c \<Rightarrow> res_bind (wr msgid data c) (\<lambda>c. Ok (conns(nodeid \<mapsto> c))))"

text \<open>
  Dynamic calls: \<open>ice_invoke\<close>. The outcome is paired with the connections, because what was
  written before an exception stays written.
\<close>

definition servant_ice_invoke ::
    "(string \<Rightarrow> byte list \<Rightarrow> 'c \<Rightarrow> 'c res) \<Rightarrow> codec \<Rightarrow> string \<Rightarrow> byte list \<Rightarrow> (string \<rightharpoonup> 'c)
     \<Rightarrow> bool res \<times> (string \<rightharpoonup> 'c)" where
  "servant_ice_invoke wr k operation inParams conns =
     (if operation = ''send'' then
        (case res_bind (in_start_encaps k inParams) (\<lambda>(e, b).
              res_bind (read_DataStruct k b) (\<lambda>(v, b). Ok (e, v, b))) of
           Ok (e, v, b) \<Rightarrow>
             (case store_from wr (ds_nodeid v) (ds_msgid v) (ds_data v) conns of
                Ok conns \<Rightarrow> (res_bind (in_end_encaps k e b) (\<lambda>_. Ok True), conns)
              | Throw x \<Rightarrow> (Throw x, conns)
              | Blocks \<Rightarrow> (Blocks, conns))
         | Throw x \<Rightarrow> (Throw x, conns)
         | Blocks \<Rightarrow> (Blocks, conns))
      else if operation = ''ping'' then (Ok True, conns)
      else (Throw (Ice_Exception ''OperationNotExistException''), conns))"

text \<open>Static calls, synchronous server.\<close>

definition servant_send_sync ::
    "(string \<Rightarrow> byte list \<Rightarrow> 'c \<Rightarrow> 'c res) \<Rightarrow> nat \<Rightarrow> string \<Rightarrow> string \<Rightarrow> byte list \<Rightarrow> (string \<rightharpoonup> 'c)
     \<Rightarrow> (wq_event list \<times> (string \<rightharpoonup> 'c)) res" where
  "servant_send_sync wr cb nodeid msgid data conns =
     res_bind (store_from wr nodeid msgid data conns) (\<lambda>conns.
     Ok ([IceResponse cb RET_SUCCEED_CODE], conns))"

text \<open>Static calls, asynchronous server: the request goes to the sender's work queue.\<close>

definition servant_send_async ::
    "nat \<Rightarrow> string \<Rightarrow> string \<Rightarrow> byte list \<Rightarrow> (string \<rightharpoonup> WorkQueue)
     \<Rightarrow> wq_event list \<times> (string \<rightharpoonup> WorkQueue)" where
  "servant_send_async cb nodeid msgid data wqs =
     (case wqs nodeid of
        None \<Rightarrow> ([], wqs)
      | Some q \<Rightarrow> let (evs, q) = wq_add cb msgid data q in (evs, wqs(nodeid \<mapsto> q)))"

section \<open>Generated dispatch\<close>

definition iceC_IoChannel_ids :: "string list" where
  "iceC_IoChannel_ids = [''::ChannelSdk::IoChannel'', ''::Ice::Object'']"

definition iceC_IoChannel_all :: "string list" where
  "iceC_IoChannel_all = [''ice_id'', ''ice_ids'', ''ice_isA'', ''ice_ping'', ''send'']"

text \<open>\<open>std::lower_bound\<close>, \<open>std::upper_bound\<close> and what is built on them, on a sorted range.\<close>

definition lower_bound :: "string list \<Rightarrow> string \<Rightarrow> nat" where
  "lower_bound xs x = length (takeWhile (\<lambda>y. y < x) xs)"

definition upper_bound :: "string list \<Rightarrow> string \<Rightarrow> nat" where
  "upper_bound xs x = length (takeWhile (\<lambda>y. \<not> x < y) xs)"

definition binary_search :: "string list \<Rightarrow> string \<Rightarrow> bool" where
  "binary_search xs x \<longleftrightarrow> (let i = lower_bound xs x in i < length xs \<and> \<not> x < xs ! i)"

datatype dispatch_target = D_ice_id | D_ice_ids | D_ice_isA | D_ice_ping | D_send

definition iceDispatch :: "string \<Rightarrow> dispatch_target res" where
  "iceDispatch operation =
     (let first = lower_bound iceC_IoChannel_all operation;
          last = upper_bound iceC_IoChannel_all operation in
      if first = last then Throw (Ice_Exception ''OperationNotExistException'')
      else if first = 0 then Ok D_ice_id
      else if first = 1 then Ok D_ice_ids
      else if first = 2 then Ok D_ice_isA
      else if first = 3 then Ok D_ice_ping
      else if first = 4 then Ok D_send
      else Throw (Undefined ''assert''))"

definition servant_ice_isA :: "string \<Rightarrow> bool" where
  "servant_ice_isA s = binary_search iceC_IoChannel_ids s"

text \<open>
  \<open>_iceD_send\<close>: the mode of the call is checked by the library (the parameter \<open>check\<close>), the
  parameters are read, the servant is called.
\<close>

datatype operation_mode = Normal | Nonmutating | Idempotent

definition iceD_send ::
    "(operation_mode \<Rightarrow> operation_mode \<Rightarrow> unit res) \<Rightarrow> (string \<Rightarrow> byte list \<Rightarrow> 'c \<Rightarrow> 'c res) \<Rightarrow> codec
     \<Rightarrow> nat \<Rightarrow> operation_mode \<Rightarrow> byte list \<Rightarrow> (string \<rightharpoonup> 'c) \<Rightarrow> (wq_event list \<times> (string \<rightharpoonup> 'c)) res" where
  "iceD_send check wr k cb mode inp conns =
     res_bind (check Idempotent mode) (\<lambda>_.
     res_bind (read_send_params k inp) (\<lambda>(nodeid, msgid, data).
     servant_send_sync wr cb nodeid msgid data conns))"

definition iceD_send_async ::
    "(operation_mode \<Rightarrow> operation_mode \<Rightarrow> unit res) \<Rightarrow> codec \<Rightarrow> nat \<Rightarrow> operation_mode \<Rightarrow> byte list
     \<Rightarrow> (string \<rightharpoonup> WorkQueue) \<Rightarrow> (wq_event list \<times> (string \<rightharpoonup> WorkQueue)) res" where
  "iceD_send_async check k cb mode inp wqs =
     res_bind (check Idempotent mode) (\<lambda>_.
     res_bind (read_send_params k inp) (\<lambda>(nodeid, msgid, data).
     Ok (servant_send_async cb nodeid msgid data wqs)))"

section \<open>Properties\<close>

text \<open>On a sorted table without duplicates the two bounds enclose the one entry looked for.\<close>

lemma takeWhile_sorted_less:
  "sorted xs \<Longrightarrow> distinct xs \<Longrightarrow> i < length xs \<Longrightarrow> takeWhile (\<lambda>y. y < xs ! i) xs = take i xs"
proof (induction xs arbitrary: i)
  case (Cons x xs)
  show ?case
  proof (cases i)
    case (Suc j)
    then have "x < xs ! j" using Cons.prems by (auto simp: less_le)
    then show ?thesis using Cons Suc by simp
  qed simp
qed simp

lemma takeWhile_sorted_le:
  "sorted xs \<Longrightarrow> distinct xs \<Longrightarrow> i < length xs \<Longrightarrow> takeWhile (\<lambda>y. \<not> xs ! i < y) xs = take (Suc i) xs"
proof (induction xs arbitrary: i)
  case (Cons x xs)
  show ?case
  proof (cases i)
    case 0
    have "takeWhile (\<lambda>y. \<not> x < y) xs = []" using Cons.prems by (cases xs) (auto simp: less_le)
    then show ?thesis using 0 by simp
  next
    case (Suc j)
    then have "\<not> xs ! j < x" using Cons.prems by (auto simp: not_less)
    then show ?thesis using Cons Suc by simp
  qed
qed simp

lemma bounds_found:
  assumes "sorted xs" "distinct xs" "i < length xs"
  shows "lower_bound xs (xs ! i) = i" "upper_bound xs (xs ! i) = Suc i"
  using assms by (simp_all add: lower_bound_def upper_bound_def takeWhile_sorted_less takeWhile_sorted_le)

lemma bounds_missing: "x \<notin> set xs \<Longrightarrow> lower_bound xs x = upper_bound xs x"
proof (induction xs)
  case (Cons y xs)
  have "y < x \<longleftrightarrow> \<not> x < y" using Cons.prems by auto
  then show ?case using Cons by (simp add: lower_bound_def upper_bound_def)
qed (simp add: lower_bound_def upper_bound_def)

lemma iceC_all_sorted: "sorted iceC_IoChannel_all" "distinct iceC_IoChannel_all"
  by code_simp+

text \<open>
  C19. The generated dispatch reaches an operation exactly by its name: each of the five names
  of the interface goes to its own handler, every other name raises
  \<open>OperationNotExistException\<close>, and the assertion at the end of the switch never fails.
\<close>

theorem iceDispatch_exact:
  "iceDispatch operation =
     (if operation = ''ice_id'' then Ok D_ice_id
      else if operation = ''ice_ids'' then Ok D_ice_ids
      else if operation = ''ice_isA'' then Ok D_ice_isA
      else if operation = ''ice_ping'' then Ok D_ice_ping
      else if operation = ''send'' then Ok D_send
      else Throw (Ice_Exception ''OperationNotExistException''))"
proof (cases "operation \<in> set iceC_IoChannel_all")
  case True
  moreover have len: "length iceC_IoChannel_all = 5" by (simp add: iceC_IoChannel_all_def)
  ultimately obtain i where i: "i < 5" "operation = iceC_IoChannel_all ! i"
    by (metis in_set_conv_nth)
  have "lower_bound iceC_IoChannel_all operation = i" "upper_bound iceC_IoChannel_all operation = Suc i"
    using bounds_found [OF iceC_all_sorted, of i] i len by simp_all
  moreover have "i = 0 \<or> i = 1 \<or> i = 2 \<or> i = 3 \<or> i = 4" using i(1) by auto
  ultimately show ?thesis
    using i(2) by (elim disjE) (simp_all add: iceDispatch_def iceC_IoChannel_all_def)
next
  case False
  then show ?thesis
    using bounds_missing [OF False] by (simp add: iceDispatch_def) (simp add: iceC_IoChannel_all_def)
qed

theorem iceDispatch_exact_witness: "iceDispatch ''send'' = Ok D_send \<and>
    iceDispatch ''ping'' = Throw (Ice_Exception ''OperationNotExistException'')"
  using iceDispatch_exact [of "''send''"] iceDispatch_exact [of "''ping''"] by simp

text \<open>
  C20. Dynamic calls: what the client encodes is what the servant stores. For the encapsulated
  \<open>DataStruct\<close> of a known sender the operation \<open>send\<close> succeeds and appends the data to that
  sender's connection under the message identifier, touching no other connection; the data of an
  unknown sender is dropped, and the call still succeeds.
\<close>

theorem servant_invoke_stores:
  assumes "ice_codec k" "length (ds_msgid v) < 2 ^ 31" "length (ds_nodeid v) < 2 ^ 31"
    "length (ds_data v) < 2 ^ 31" "length (encode_DataStruct k v) < 2 ^ 31"
  shows "servant_ice_invoke (\<lambda>m d c. Ok (conn_write_q m d c)) k ''send'' (encode_DataStruct k v) conns =
    (Ok True, case conns (ds_nodeid v) of
       None \<Rightarrow> conns
     | Some c \<Rightarrow> conns(ds_nodeid v \<mapsto> conn_write_q (ds_msgid v) (ds_data v) c))"
  using ice_codec.DataStruct_roundtrip [OF assms]
  by (auto simp: servant_ice_invoke_def store_from_def split: option.splits)

theorem servant_invoke_stores_witness:
  "servant_ice_invoke (\<lambda>m d c. Ok (conn_write_q m d c)) standard_codec ''send''
      (encode_DataStruct standard_codec \<lparr>ds_msgid = ''m'', ds_nodeid = ''n'', ds_data = [1, 2]\<rparr>) [''n'' \<mapsto> conn_new ''n'']
    = (Ok True, [''n'' \<mapsto> conn_write_q ''m'' [1, 2] (conn_new ''n'')])"
proof -
  have "length (encode_DataStruct standard_codec \<lparr>ds_msgid = ''m'', ds_nodeid = ''n'', ds_data = [1, 2]\<rparr>) = 13"
    by code_simp
  then show ?thesis
    by (subst servant_invoke_stores) (simp_all add: std.ice_codec_axioms)
qed

text \<open>
  Static calls: the parameters a proxy writes reach the servant, which answers with success
  exactly once, after the data of a known sender has been stored.
\<close>

lemma static_send_stores:
  assumes "ice_codec k" "check Idempotent Idempotent = Ok ()"
    "length nodeid < 2 ^ 31" "length msgid < 2 ^ 31" "length data < 2 ^ 31"
    "length (write_send_params k nodeid msgid data) < 2 ^ 31"
  shows "iceD_send check (\<lambda>m d c. Ok (conn_write_q m d c)) k cb Idempotent
      (write_send_params k nodeid msgid data) conns =
    Ok ([IceResponse cb 0], case conns nodeid of
       None \<Rightarrow> conns
     | Some c \<Rightarrow> conns(nodeid \<mapsto> conn_write_q msgid data c))"
  using ice_codec.send_params_roundtrip [OF assms(1,3,4,5,6)] assms(2)
  by (simp add: iceD_send_def servant_send_sync_def store_from_def RET_SUCCEED_CODE_def split: option.split)

lemma static_send_stores_example:
  "iceD_send (\<lambda>_ _. Ok ()) (\<lambda>m d c. Ok (conn_write_q m d c)) standard_codec 3 Idempotent
      (write_send_params standard_codec ''n'' ''m'' [1, 2]) [''n'' \<mapsto> conn_new ''n'']
    = Ok ([IceResponse 3 0], [''n'' \<mapsto> conn_write_q ''m'' [1, 2] (conn_new ''n'')])"
proof -
  have "length (write_send_params standard_codec ''n'' ''m'' [1, 2]) = 13" by code_simp
  then show ?thesis
    by (subst static_send_stores) (simp_all add: std.ice_codec_axioms)
qed

text \<open>
  Asynchronous server: a request is answered if and only if its sender is known; a request of
  an unknown sender gets no answer at all, so its caller waits for ever.
\<close>

lemma async_unknown_unanswered:
  "answers (fst (servant_send_async cb nodeid msgid data wqs)) =
     (if nodeid \<in> dom wqs then [cb] else [])"
  by (auto simp: servant_send_async_def wq_add_def answers_def Let_def split: option.split prod.split)

end
