(* ===== verification/Clients.thy ===== *)
theory Clients
  imports Endpoints Io_Servant
begin

text \<open>
  What a client does with its proxy: \<open>BaseClient::CheckConnStatus\<close> (\<^verbatim>\<open>core/src/base_client.cc\<close>) and
  \<open>SyncClient::send\<close> (\<^verbatim>\<open>core/src/sync_client.cc\<close>). Both call, and on an exception call again after
  a sleep until a timeout. What the network and the scheduler do to the calls is a list of
  attempts: whether the servant executed the call, whether the caller got an exception, the
  nanoseconds from the start of the call until the caller looked at its steady clock, and the
  nanoseconds by which the sleep after it took longer than it was asked to. The sleep itself is
  part of the loop, which carries the clock from one attempt to the next.
\<close>

record attempt =
  at_executed :: bool
  at_failed :: bool
  at_took :: int
  at_late :: int

text \<open>
  The loop the two functions share; \<open>timer_.start()\<close> overwrites all of \<open>timer_\<close>, so its earlier
  state is of no matter; \<open>event\<close> is what they report at the timeout, \<open>pause\<close> the nanoseconds they
  sleep, \<open>now\<close> the clock when the next call starts.
\<close>

fun retry_loop :: "int \<Rightarrow> int \<Rightarrow> SimpleTimer \<Rightarrow> unit res \<Rightarrow> int \<Rightarrow> attempt list \<Rightarrow> nat \<times> unit res" where
  "retry_loop timeout pause tm event now [] = (0, Blocks)"
| "retry_loop timeout pause tm event now (a # as) =
     (if \<not> at_failed a then (1, Ok ())
      else if to_u64 (ms_elapse (now + at_took a) tm) \<ge> timeout then (1, event)
      else let (n, r) = retry_loop timeout pause tm event (now + at_took a + pause + at_late a) as in (Suc n, r))"

text \<open>\<open>usleep(usec)\<close> sleeps \<open>usec\<close> microseconds.\<close>

definition CheckConnStatus ::
    "string \<Rightarrow> int \<Rightarrow> int \<Rightarrow> int \<Rightarrow> attempt list \<Rightarrow> 'p BaseClient \<Rightarrow> nat \<times> bool res" where
  "CheckConnStatus nodeid tmo usec now as c =
     (let (n, r) = retry_loop tmo (usec * 1000) (timer_new now)
        (HANDLE_EXCEPTION_EVENT C_EVENT_CODE_CONNECT_TIMEOUT (bc_task_id c)
          [StrArg nodeid, StrArg (bc_remote_nid c), LongArg (to_i64 tmo)]) now as in
      (n, res_bind r (\<lambda>_. Ok True)))"

text \<open>
  The data is copied to \<open>&sendData.data[0]\<close>, which an empty vector does not have. \<open>sleep(1)\<close>
  sleeps a second. \<open>send_timeout_\<close> is read after a failure only.
\<close>

definition client_send ::
    "string \<Rightarrow> string \<Rightarrow> byte list \<Rightarrow> int \<Rightarrow> attempt list \<Rightarrow> 'p BaseClient \<Rightarrow> nat \<times> int res" where
  "client_send self_nodeid remote_nodeid data now as c =
     (if data = [] then (0, Throw (Undefined ''vector index''))
      else case bc_send_timeout c of
        None \<Rightarrow>
          (case as of
             [] \<Rightarrow> (0, Blocks)
           | a # _ \<Rightarrow> (1, if at_failed a then Throw (Undefined ''uninitialised'') else Ok (int (length data))))
      | Some t \<Rightarrow>
          let (n, r) = retry_loop t 1000000000 (timer_new now)
            (HANDLE_EXCEPTION_EVENT C_EVENT_CODE_SEND_DATA_TIMEOUT (bc_task_id c)
              [StrArg self_nodeid, StrArg remote_nodeid, LongArg (to_i64 t)]) now as in
          (n, res_bind r (\<lambda>_. Ok (int (length data)))))"

text \<open>
  What the attempts did to the servant (dynamic build): each executed one delivered the
  encapsulated \<open>DataStruct\<close>.
\<close>

definition sent_params :: "codec \<Rightarrow> string \<Rightarrow> string \<Rightarrow> byte list \<Rightarrow> byte list" where
  "sent_params k self_nodeid msg_id data =
     encode_DataStruct k \<lparr>ds_msgid = msg_id, ds_nodeid = self_nodeid, ds_data = data\<rparr>"

abbreviation write_q :: "string \<Rightarrow> byte list \<Rightarrow> byte list list ClientConnection \<Rightarrow> byte list list ClientConnection res" where
  "write_q \<equiv> \<lambda>m d c. Ok (conn_write_q m d c)"

definition servant_after ::
    "(string \<Rightarrow> byte list \<Rightarrow> 'c \<Rightarrow> 'c res) \<Rightarrow> codec \<Rightarrow> byte list \<Rightarrow> attempt list \<Rightarrow> (string \<rightharpoonup> 'c) \<Rightarrow> (string \<rightharpoonup> 'c)" where
  "servant_after wr k params as conns =
     fold (\<lambda>a conns. if at_executed a then snd (servant_ice_invoke wr k ''send'' params conns) else conns) as conns"

section \<open>Properties\<close>

lemma ms_elapse_new: "ms_elapse t (timer_new now) = c_div (t - now) 1000000"
  by (simp add: ms_elapse_def ending_def timer_new_def timer_start_def)

lemma le_div_int_iff: "0 < k \<Longrightarrow> m \<le> x div k \<longleftrightarrow> m * k \<le> x" for k m x :: int
proof
  assume k: "0 < k" and "m * k \<le> x"
  then have "m * k div k \<le> x div k" by (intro zdiv_mono1)
  then show "m \<le> x div k" using k by simp
next
  assume k: "0 < k" and "m \<le> x div k"
  then have "m * k \<le> x div k * k" by (intro mult_right_mono) auto
  then show "m * k \<le> x" using div_mult_mod_eq [of x k] pos_mod_sign [OF k, of x] by linarith
qed

lemma ms_elapse_iff:
  assumes "start \<le> t" "t < start + 2 ^ 63"
  shows "timeout \<le> to_u64 (ms_elapse t (timer_new start)) \<longleftrightarrow> timeout * 1000000 \<le> t - start"
proof -
  have "0 \<le> (t - start) div 1000000" "(t - start) div 1000000 \<le> 2 ^ 63 div 1000000"
    using assms by (simp_all add: zdiv_mono1 pos_imp_zdiv_nonneg_iff)
  then have "to_u64 (ms_elapse t (timer_new start)) = (t - start) div 1000000"
    using assms(1) by (simp add: ms_elapse_new c_div_nonneg)
  then show ?thesis by (simp add: le_div_int_iff)
qed

text \<open>The time from the first call to the end of the \<open>n\<close>-th: \<open>n\<close> calls and the sleeps between them.\<close>

definition retry_time :: "int \<Rightarrow> attempt list \<Rightarrow> nat \<Rightarrow> int" where
  "retry_time pause as n =
     sum_list (map at_took (take n as)) + sum_list (map (\<lambda>a. pause + at_late a) (take (n - 1) as))"

definition forward :: "attempt \<Rightarrow> bool" where
  "forward a \<longleftrightarrow> 0 \<le> at_took a \<and> 0 \<le> at_late a"

lemma retry_time_simps [simp]:
  "retry_time p as 0 = 0" "retry_time p (a # as) (Suc 0) = at_took a"
  "0 < n \<Longrightarrow> retry_time p (a # as) (Suc n) = at_took a + p + at_late a + retry_time p as n"
  by (cases n; simp add: retry_time_def)+

lemma retry_time_ge:
  assumes "0 \<le> p" "list_all forward as" "n \<le> length as"
  shows "int (n - 1) * p \<le> retry_time p as n \<and> 0 \<le> retry_time p as n"
  using assms(2,3)
proof (induction as arbitrary: n)
  case (Cons a as)
  consider "n = 0" | "n = Suc 0" | m where "n = Suc (Suc m)" by (metis not0_implies_Suc)
  then show ?case
  proof cases
    case (3 m)
    then show ?thesis using Cons.IH [of "Suc m"] Cons.prems assms(1) by (auto simp: forward_def algebra_simps)
  qed (use Cons.prems in \<open>simp_all add: forward_def\<close>)
qed (simp add: retry_time_def)

text \<open>
  What the loop does, exactly. Every attempt before the last failed before the timeout. The last
  one succeeded, or failed at or after the timeout, or was the last of the list.
\<close>

lemma retry_loop_exact:
  assumes "0 \<le> p" "list_all forward as" "start \<le> now" "now - start + retry_time p as (length as) < 2 ^ 63"
    "retry_loop timeout p (timer_new start) event now as = (n, r)"
  defines "pending i \<equiv> at_failed (as ! i) \<and> now - start + retry_time p as (Suc i) < timeout * 1000000"
  shows "n \<le> length as \<and> (\<forall>i. Suc i < n \<longrightarrow> pending i) \<and>
    (r = Ok () \<and> 0 < n \<and> \<not> at_failed (as ! (n - 1)) \<or>
     r = event \<and> 0 < n \<and> at_failed (as ! (n - 1)) \<and> timeout * 1000000 \<le> now - start + retry_time p as n \<or>
     r = Blocks \<and> n = length as \<and> (\<forall>i<n. pending i))"
  using assms(2-5) unfolding pending_def
proof (induction as arbitrary: now n)
  case (Cons a as)
  let ?t = "now + at_took a"
  have fwd: "forward a" "list_all forward as" using Cons.prems(1) by simp_all
  have ge: "at_took a \<le> retry_time p (a # as) (length (a # as))"
    using retry_time_ge [OF assms(1) fwd(2), of "length as"] fwd(1) assms(1)
    by (cases as) (auto simp: forward_def)
  have iff: "timeout \<le> to_u64 (ms_elapse ?t (timer_new start)) \<longleftrightarrow> timeout * 1000000 \<le> ?t - start"
    using Cons.prems(2,3) fwd(1) ge by (intro ms_elapse_iff) (auto simp: forward_def)
  show ?case
  proof (cases "at_failed a \<and> \<not> timeout * 1000000 \<le> ?t - start")
    case False
    then show ?thesis using Cons.prems(4) iff by (auto split: if_splits)
  next
    case True
    let ?now = "now + at_took a + p + at_late a"
    obtain m where m: "retry_loop timeout p (timer_new start) event ?now as = (m, r)" "n = Suc m"
      using Cons.prems(4) True iff by (auto split: prod.splits)
    have rest: "start \<le> ?now" using Cons.prems(2) fwd(1) assms(1) by (auto simp: forward_def)
    have P: "at_failed ((a # as) ! i) \<and> now - start + retry_time p (a # as) (Suc i) < timeout * 1000000"
      if "\<forall>j. i = Suc j \<longrightarrow> at_failed (as ! j) \<and> ?now - start + retry_time p as (Suc j) < timeout * 1000000" for i
      using that True by (cases i) (auto simp: algebra_simps)
    show ?thesis
    proof (cases "as = []")
      case Nil: True
      then show ?thesis using m True by auto
    next
      case False
      then have "?now - start + retry_time p as (length as) < 2 ^ 63" using Cons.prems(3) by (simp add: algebra_simps)
      note IH = Cons.IH [OF fwd(2) rest this m(1)]
      have before: "n \<le> length (a # as)" "\<forall>i. Suc i < n \<longrightarrow>
          at_failed ((a # as) ! i) \<and> now - start + retry_time p (a # as) (Suc i) < timeout * 1000000"
        using IH m(2) by (auto intro!: P)
      have last: "(a # as) ! (n - 1) = as ! (m - 1)"
          "now - start + retry_time p (a # as) n = ?now - start + retry_time p as m" if "0 < m"
        using m(2) that by (simp_all add: nth_Cons')
      consider (ok) "r = Ok ()" "0 < m" "\<not> at_failed (as ! (m - 1))"
        | (late) "r = event" "0 < m" "at_failed (as ! (m - 1))" "timeout * 1000000 \<le> ?now - start + retry_time p as m"
        | (more) "r = Blocks" "m = length as"
            "\<forall>i<m. at_failed (as ! i) \<and> ?now - start + retry_time p as (Suc i) < timeout * 1000000"
        using IH by blast
      then show ?thesis
      proof cases
        case ok
        then show ?thesis using before last m(2) by auto
      next
        case late
        then have "at_failed ((a # as) ! (n - 1))" "timeout * 1000000 \<le> now - start + retry_time p (a # as) n" "0 < n"
          using last m(2) by (simp_all only: zero_less_Suc)
        then show ?thesis using before late(1) by blast
      next
        case more
        have "n = length (a # as)" using more(2) m(2) by simp
        moreover have "\<forall>i<n. at_failed ((a # as) ! i) \<and> now - start + retry_time p (a # as) (Suc i) < timeout * 1000000"
          using m(2) more(3) by (auto intro!: P)
        ultimately show ?thesis using before more(1) by blast
      qed
    qed
  qed
qed simp

text \<open>
  Calls that start a pause apart: the loop makes at most one more than fit into the timeout, and it
  is still waiting only when the list has fewer.
\<close>

lemma retry_loop_bound:
  assumes "0 < p" "0 \<le> timeout" "list_all forward as" "retry_time p as (length as) < 2 ^ 63"
    "retry_loop timeout p (timer_new now) event now as = (n, r)"
  shows "(int n - 2) * p < timeout * 1000000 \<or> n = 1" "r = Blocks \<Longrightarrow> event \<noteq> Blocks \<Longrightarrow> (int (length as) - 1) * p < timeout * 1000000 \<and> n = length as"
proof -
  have ge: "int i * p \<le> retry_time p as (Suc i)" if "i < length as" for i
    using retry_time_ge [of p as "Suc i"] assms(1,3) that by simp
  note exact = retry_loop_exact [OF _ assms(3) order.refl _ assms(5)]
  show "(int n - 2) * p < timeout * 1000000 \<or> n = 1"
  proof (cases "n \<le> 1")
    case True
    then consider "n = 0" | "n = 1" by linarith
    then show ?thesis using assms(1,2) by cases (simp_all add: mult_neg_pos)
  next
    case False
    then obtain i where i: "n = Suc (Suc i)" by (metis One_nat_def not0_implies_Suc not_less_eq_eq zero_le)
    then have "retry_time p as (Suc i) < timeout * 1000000" "i < length as"
      using exact assms(1,4) by auto
    then show ?thesis using ge [of i] i by simp
  qed
  show "(int (length as) - 1) * p < timeout * 1000000 \<and> n = length as" if "r = Blocks" "event \<noteq> Blocks"
  proof (cases "length as")
    case 0
    then show ?thesis using exact that assms(1,2,4) by auto
  next
    case (Suc i)
    then show ?thesis using ge [of i] exact that assms(1,4) by auto
  qed
qed

lemma retry_loop_outcome:
  assumes "retry_loop timeout p tm event now as = (n, r)"
  shows "r = Ok () \<and> 0 < n \<and> n \<le> length as \<and> \<not> at_failed (as ! (n - 1)) \<or> r = event \<or> r = Blocks"
  using assms
proof (induction as arbitrary: now n r)
  case (Cons a as)
  show ?case
  proof (cases "at_failed a \<and> \<not> to_u64 (ms_elapse (now + at_took a) tm) \<ge> timeout")
    case True
    then obtain m where m: "retry_loop timeout p tm event (now + at_took a + p + at_late a) as = (m, r)" "n = Suc m"
      using Cons.prems by (auto split: prod.splits)
    then show ?thesis using Cons.IH [OF m(1)] by (auto simp: nth_Cons')
  next
    case False
    then show ?thesis using Cons.prems by (auto split: if_splits)
  qed
qed simp

text \<open>Executed attempts each append the message; the servant changes nothing else.\<close>

lemma conn_write_q_timeout [simp]: "recv_timeout (conn_write_q m d c) = recv_timeout c"
  by (auto simp: conn_write_q_def Let_def split: option.splits)

lemma writes_queued:
  "queued ((conn_write_q m d ^^ n) c) = (queued c)(m := queued c m @ replicate n d)"
  by (induction n) (auto simp: conn_write_q_queued fun_eq_iff replicate_append_same [symmetric])

lemma writes_timeout: "recv_timeout ((conn_write_q m d ^^ n) c) = recv_timeout c"
  by (induction n) simp_all

lemma servant_after_stores:
  assumes "ice_codec k" "length self < 2 ^ 31" "length msg < 2 ^ 31" "length data < 2 ^ 31"
    "length (sent_params k self msg data) < 2 ^ 31" "conns self = Some c"
    "res_fold (\<lambda>_. wr msg data) (filter at_executed as) c = Ok c'"
  shows "servant_after wr k (sent_params k self msg data) as conns = conns(self \<mapsto> c')"
  using assms(6,7)
proof (induction as arbitrary: conns c)
  case Nil
  then show ?case by (simp add: servant_after_def fun_upd_idem)
next
  case (Cons a as)
  show ?case
  proof (cases "at_executed a")
    case True
    then obtain c1 where c1: "wr msg data c = Ok c1" "res_fold (\<lambda>_. wr msg data) (filter at_executed as) c1 = Ok c'"
      using Cons.prems(2) by (auto simp: res_bind_Ok_iff)
    let ?v = "\<lparr>ds_msgid = msg, ds_nodeid = self, ds_data = data\<rparr>"
    have "\<exists>e b. in_start_encaps k (sent_params k self msg data) = Ok (e, b) \<and>
        read_DataStruct k b = Ok (?v, []) \<and> in_end_encaps k e [] = Ok []"
      using ice_codec.DataStruct_roundtrip [of k ?v] assms(1-5) by (simp add: sent_params_def)
    then have "snd (servant_ice_invoke wr k ''send'' (sent_params k self msg data) conns) = conns(self \<mapsto> c1)"
      using Cons.prems(1) c1(1) by (auto simp: servant_ice_invoke_def store_from_def)
    then have "servant_after wr k (sent_params k self msg data) (a # as) conns =
        servant_after wr k (sent_params k self msg data) as (conns(self \<mapsto> c1))"
      using True by (simp add: servant_after_def)
    also have "\<dots> = (conns(self \<mapsto> c1))(self \<mapsto> c')" by (rule Cons.IH [OF fun_upd_same c1(2)])
    finally show ?thesis by (simp only: fun_upd_upd)
  next
    case False
    then show ?thesis using Cons.IH [of conns c] Cons.prems by (simp add: servant_after_def)
  qed
qed

lemma write_q_fold: "res_fold (\<lambda>_. write_q m d) xs c = Ok ((conn_write_q m d ^^ length xs) c)"
  by (induction xs arbitrary: c) (simp_all add: funpow_swap1)

lemmas servant_after_writes = servant_after_stores [OF _ _ _ _ _ _ write_q_fold]

lemma executed_last:
  assumes "0 < n" "n \<le> length as" "at_executed (as ! (n - 1))"
  shows "0 < length (filter at_executed (take n as))"
proof -
  have "as ! (n - 1) \<in> set (take n as)"
    using assms by (auto simp: in_set_conv_nth intro!: exI [of _ "n - 1"])
  then have "filter at_executed (take n as) \<noteq> []" using assms(3) by (auto simp: filter_empty_conv)
  then show ?thesis by simp
qed

text \<open>
  C29. \<open>send\<close> is bounded, and says why it gives up. Sending something, it makes at most one call
  more than the timeout has seconds, rounded up. It returns the length exactly when its last call
  went through; otherwise it reports \<open>SEND_DATA_TIMEOUT\<close>, naming both nodes and the timeout, at a
  failure at least \<open>send_timeout_\<close> milliseconds after it started; it is still trying only when
  fewer calls than the bound have been answered.
\<close>

theorem send_bounded:
  assumes "bc_send_timeout c = Some t" "0 \<le> t" "data \<noteq> []" "list_all forward as"
    "retry_time 1000000000 as (length as) < 2 ^ 63"
    "client_send self remote data now as c = (n, r)"
  shows "int n \<le> (t + 999) div 1000 + 1 \<and> n \<le> length as \<and>
    (r = Ok (int (length data)) \<and> 0 < n \<and> \<not> at_failed (as ! (n - 1)) \<or>
     r = Throw (EventException (event_buffer (''Self nodeid:'' @ c_str self @ '' send data to nodeid:'' @ c_str remote @
           '' timeout, The timeout period is: '' @ dec_int (to_i64 t) @ ''ms, send data failed!''))) \<and>
       0 < n \<and> at_failed (as ! (n - 1)) \<and> t * 1000000 \<le> retry_time 1000000000 as n \<or>
     r = Blocks \<and> n = length as \<and> int n < (t + 999) div 1000 + 1)"
proof -
  let ?ev = "HANDLE_EXCEPTION_EVENT C_EVENT_CODE_SEND_DATA_TIMEOUT (bc_task_id c)
              [StrArg self, StrArg remote, LongArg (to_i64 t)] :: unit res"
  obtain r0 where r0: "retry_loop t 1000000000 (timer_new now) ?ev now as = (n, r0)"
      "r = res_bind r0 (\<lambda>_. Ok (int (length data)))"
    using assms(1,3,6) by (auto simp: client_send_def split: prod.splits)
  have bound: "(int n - 2) * 1000000000 < t * 1000000 \<or> n = 1"
      "r0 = Blocks \<Longrightarrow> (int (length as) - 1) * 1000000000 < t * 1000000 \<and> n = length as"
    using retry_loop_bound [OF _ assms(2,4,5) r0(1)] by (auto simp: send_timeout_event)
  have "int n \<le> (t + 999) div 1000 + 1" using bound(1) assms(2) by (auto simp: le_div_int_iff)
  moreover have "n = length as \<and> int n < (t + 999) div 1000 + 1" if "r0 = Blocks"
  proof -
    have "int n \<le> (t + 999) div 1000" using bound(2) [OF that] by (auto simp: le_div_int_iff)
    then show ?thesis using bound(2) [OF that] by linarith
  qed
  ultimately show ?thesis
    using retry_loop_exact [OF _ assms(4) order.refl _ r0(1)] assms(5) r0(2) by (auto simp: send_timeout_event)
qed

text \<open>
  C30. \<open>CheckConnStatus\<close> is bounded the same way by its own timeout and pause: it pings at most one
  time more than pauses of \<open>usec\<close> microseconds fit into \<open>conn_timeout\<close> milliseconds, rounded up;
  it returns true exactly when its last ping went through, or reports \<open>CONNECT_TIMEOUT\<close>, naming
  both nodes and the timeout, at a failure at least \<open>conn_timeout\<close> milliseconds after it started.
\<close>

theorem ping_bounded:
  assumes "0 < usec" "0 \<le> t" "list_all forward as" "retry_time (usec * 1000) as (length as) < 2 ^ 63"
    "CheckConnStatus nodeid t usec now as c = (n, r)"
  shows "int n \<le> (t * 1000 + usec - 1) div usec + 1 \<and> n \<le> length as \<and>
    (r = Ok True \<and> 0 < n \<and> \<not> at_failed (as ! (n - 1)) \<or>
     r = Throw (EventException (event_buffer (c_str nodeid @ '' connect to remote nodeid:'' @ c_str (bc_remote_nid c) @
           '' timeout, The timeout period is:'' @ dec_int (to_i64 t) @ ''ms, create io channel failed!''))) \<and>
       0 < n \<and> at_failed (as ! (n - 1)) \<and> t * 1000000 \<le> retry_time (usec * 1000) as n \<or>
     r = Blocks \<and> n = length as \<and> int n < (t * 1000 + usec - 1) div usec + 1)"
proof -
  let ?ev = "HANDLE_EXCEPTION_EVENT C_EVENT_CODE_CONNECT_TIMEOUT (bc_task_id c)
              [StrArg nodeid, StrArg (bc_remote_nid c), LongArg (to_i64 t)] :: unit res"
  obtain r0 where r0: "retry_loop t (usec * 1000) (timer_new now) ?ev now as = (n, r0)"
      "r = res_bind r0 (\<lambda>_. Ok True)"
    using assms(5) by (auto simp: CheckConnStatus_def split: prod.splits)
  have bound: "(int n - 2) * usec < t * 1000 \<or> n = 1"
      "r0 = Blocks \<Longrightarrow> (int (length as) - 1) * usec < t * 1000 \<and> n = length as"
    using retry_loop_bound [OF _ assms(2-4) r0(1)] assms(1) by (auto simp: connect_timeout_event mult.commute)
  have "(int n - 1) * usec \<le> t * 1000 + usec - 1" using bound(1) assms(1,2) by (auto simp: algebra_simps)
  then have "int n - 1 \<le> (t * 1000 + usec - 1) div usec" using le_div_int_iff [OF assms(1)] by blast
  then have "int n \<le> (t * 1000 + usec - 1) div usec + 1" by linarith
  moreover have "int n < (t * 1000 + usec - 1) div usec + 1 \<and> n = length as" if "r0 = Blocks"
  proof -
    have "int n * usec \<le> t * 1000 + usec - 1" using bound(2) [OF that] by (simp add: algebra_simps)
    then have "int n \<le> (t * 1000 + usec - 1) div usec" using le_div_int_iff [OF assms(1)] by blast
    then show ?thesis using bound(2) [OF that] by linarith
  qed
  ultimately show ?thesis
    using retry_loop_exact [OF _ assms(3) order.refl _ r0(1)] assms(1,4) r0(2) by (auto simp: connect_timeout_event)
qed

text \<open>A send that returns ended with an attempt that did not fail.\<close>

lemma client_send_Ok:
  assumes "client_send self remote data now as c = (n, Ok len)"
  shows "0 < n \<and> n \<le> length as \<and> \<not> at_failed (as ! (n - 1)) \<and> len = int (length data)"
proof (cases "bc_send_timeout c")
  case None
  then show ?thesis using assms by (auto simp: client_send_def split: list.splits if_splits)
next
  case (Some t)
  let ?ev = "HANDLE_EXCEPTION_EVENT C_EVENT_CODE_SEND_DATA_TIMEOUT (bc_task_id c) [StrArg self, StrArg remote, LongArg (to_i64 t)] :: unit res"
  obtain r0 where r0: "retry_loop t 1000000000 (timer_new now) ?ev now as = (n, r0)" "Ok len = res_bind r0 (\<lambda>_. Ok (int (length data)))"
    using assms Some by (auto simp: client_send_def split: prod.splits if_splits)
  from r0(2) [symmetric] have ok: "r0 = Ok ()" and len: "len = int (length data)" by (simp_all add: res_bind_Ok_iff)
  have "Ok () \<noteq> ?ev" using handle_not_Ok by metis
  then show ?thesis using retry_loop_outcome [OF r0(1)] len unfolding ok by blast
qed

text \<open>
  Sending is at least once. When \<open>send\<close> returns the length, the receiving node has queued
  the data for the sender under the message identifier, once for every attempt its servant
  executed, at least once; and nothing else there has changed. An attempt whose answer was lost
  counts, so the message may be queued more than once.
\<close>

lemma send_at_least_once:
  assumes "client_send self remote data now as c = (n, Ok len)"
    "\<And>a. a \<in> set as \<Longrightarrow> \<not> at_failed a \<Longrightarrow> at_executed a"
    "ice_codec k" "length self < 2 ^ 31" "length msg < 2 ^ 31" "length data < 2 ^ 31"
    "length (sent_params k self msg data) < 2 ^ 31" "conns self = Some conn"
  shows "\<exists>conn' m. servant_after write_q k (sent_params k self msg data) (take n as) conns = conns(self \<mapsto> conn') \<and>
    queued conn' = (queued conn)(msg := queued conn msg @ replicate m data) \<and>
    m = length (filter at_executed (take n as)) \<and> 0 < m \<and> len = int (length data)"
proof -
  have l: "0 < n" "n \<le> length as" "\<not> at_failed (as ! (n - 1))" "len = int (length data)"
    using client_send_Ok [OF assms(1)] by simp_all
  then have "at_executed (as ! (n - 1))" using assms(2) [of "as ! (n - 1)"] by simp
  then have "0 < length (filter at_executed (take n as))" using executed_last l by blast
  moreover have "servant_after write_q k (sent_params k self msg data) (take n as) conns =
      conns(self \<mapsto> (conn_write_q msg data ^^ length (filter at_executed (take n as))) conn)"
    by (rule servant_after_writes) (fact assms)+
  ultimately show ?thesis using l(4) writes_queued by blast
qed

text \<open>A client with a timeout of five seconds; the answer to its first attempt is lost.\<close>

definition example_client :: "unit BaseClient" where
  "example_client = SetSendTimeOut 5000 \<lparr>bc_task_id = ''t1'', bc_remote_nid = ''p1'',
     bc_proxy_string = ''IoChannel_t1_p1'', bc_stub = (), bc_send_timeout = None\<rparr>"

definition example_attempts :: "attempt list" where
  "example_attempts = [\<lparr>at_executed = True, at_failed = True, at_took = 500000000, at_late = 0\<rparr>,
                       \<lparr>at_executed = True, at_failed = False, at_took = 100000000, at_late = 0\<rparr>]"

lemma example_sent: "client_send ''p0'' ''p1'' [1, 2, 3] 0 example_attempts example_client = (2, Ok 3)"
  by (simp add: client_send_def example_attempts_def example_client_def SetSendTimeOut_def ms_elapse_new c_div_nonneg)

text \<open>Calls that all fail, half a second each.\<close>

definition failing_attempts :: "attempt list" where
  "failing_attempts = replicate 6 \<lparr>at_executed = False, at_failed = True, at_took = 500000000, at_late = 0\<rparr>"

lemma failing_attempts_eq: "failing_attempts =
    (let a = \<lparr>at_executed = False, at_failed = True, at_took = 500000000, at_late = 0\<rparr> in [a, a, a, a, a, a])"
  by (simp add: failing_attempts_def eval_nat_numeral Let_def)

lemma dec_5000: "dec_int (to_i64 5000) = ''5000''"
  by (simp add: dec_int_def dec_nat.simps to_i64_def, code_simp)

theorem send_bounded_witness:
  "\<exists>n m. client_send ''p0'' ''p1'' [1, 2, 3] 0 failing_attempts example_client = (n, Throw (EventException m)) \<and>
    int n \<le> 6 \<and> event_what m = ''Self nodeid:p0 send data to nodeid:p1 timeout, The timeout period is: 5000ms, send data failed!''"
proof -
  obtain n r where nr: "client_send ''p0'' ''p1'' [1, 2, 3] 0 failing_attempts example_client = (n, r)" by fastforce
  have six: "length failing_attempts = 6" by (simp add: failing_attempts_def)
  have fwd: "list_all forward failing_attempts" "retry_time 1000000000 failing_attempts (length failing_attempts) < 2 ^ 63"
    by (simp_all add: failing_attempts_eq forward_def retry_time_def Let_def)
  have b: "int n \<le> (5000 + 999) div 1000 + 1 \<and> n \<le> length failing_attempts \<and>
    (r = Ok (int (length [1, 2, 3 :: byte])) \<and> 0 < n \<and> \<not> at_failed (failing_attempts ! (n - 1)) \<or>
     r = Throw (EventException (event_buffer (''Self nodeid:'' @ c_str ''p0'' @ '' send data to nodeid:'' @ c_str ''p1'' @
           '' timeout, The timeout period is: '' @ dec_int (to_i64 5000) @ ''ms, send data failed!''))) \<and>
       0 < n \<and> at_failed (failing_attempts ! (n - 1)) \<and> 5000 * 1000000 \<le> retry_time 1000000000 failing_attempts n \<or>
     r = Blocks \<and> n = length failing_attempts \<and> int n < (5000 + 999) div 1000 + 1)"
    by (rule send_bounded [OF _ _ _ fwd(1) _ nr]) (use fwd(2) in \<open>simp_all add: example_client_def SetSendTimeOut_def\<close>)
  have "at_failed (failing_attempts ! (n - 1))" if "0 < n" "n \<le> 6"
    using that by (simp add: failing_attempts_def)
  then have "r = Throw (EventException (event_buffer (''Self nodeid:'' @ ''p0'' @ '' send data to nodeid:'' @ ''p1'' @
           '' timeout, The timeout period is: '' @ ''5000'' @ ''ms, send data failed!'')))" "int n \<le> 6"
    using b six unfolding dec_5000 by (auto simp: c_str_def)
  moreover have "event_what (event_buffer (''Self nodeid:'' @ ''p0'' @ '' send data to nodeid:'' @ ''p1'' @
           '' timeout, The timeout period is: '' @ ''5000'' @ ''ms, send data failed!'')) =
      ''Self nodeid:p0 send data to nodeid:p1 timeout, The timeout period is: 5000ms, send data failed!''"
    by code_simp
  ultimately show ?thesis using nr by blast
qed

theorem ping_bounded_witness:
  "\<exists>n m. CheckConnStatus ''p0'' 5000 1000000 0 failing_attempts example_client = (n, Throw (EventException m)) \<and>
    int n \<le> 6 \<and> event_what m = ''p0 connect to remote nodeid:p1 timeout, The timeout period is:5000ms, create io channel failed!''"
proof -
  obtain n r where nr: "CheckConnStatus ''p0'' 5000 1000000 0 failing_attempts example_client = (n, r)" by fastforce
  have six: "length failing_attempts = 6" by (simp add: failing_attempts_def)
  have remote: "bc_remote_nid example_client = ''p1''" by (simp add: example_client_def SetSendTimeOut_def)
  have fwd: "list_all forward failing_attempts" "retry_time (1000000 * 1000) failing_attempts (length failing_attempts) < 2 ^ 63"
    by (simp_all add: failing_attempts_eq forward_def retry_time_def Let_def)
  have b: "int n \<le> (5000 * 1000 + 1000000 - 1) div 1000000 + 1 \<and> n \<le> length failing_attempts \<and>
    (r = Ok True \<and> 0 < n \<and> \<not> at_failed (failing_attempts ! (n - 1)) \<or>
     r = Throw (EventException (event_buffer (c_str ''p0'' @ '' connect to remote nodeid:'' @ c_str (bc_remote_nid example_client) @
           '' timeout, The timeout period is:'' @ dec_int (to_i64 5000) @ ''ms, create io channel failed!''))) \<and>
       0 < n \<and> at_failed (failing_attempts ! (n - 1)) \<and> 5000 * 1000000 \<le> retry_time (1000000 * 1000) failing_attempts n \<or>
     r = Blocks \<and> n = length failing_attempts \<and> int n < (5000 * 1000 + 1000000 - 1) div 1000000 + 1)"
    by (rule ping_bounded [OF _ _ fwd(1) _ nr]) (use fwd(2) in simp_all)
  have "at_failed (failing_attempts ! (n - 1))" if "0 < n" "n \<le> 6"
    using that by (simp add: failing_attempts_def)
  then have "r = Throw (EventException (event_buffer (''p0'' @ '' connect to remote nodeid:'' @ ''p1'' @
           '' timeout, The timeout period is:'' @ ''5000'' @ ''ms, create io channel failed!'')))" "int n \<le> 6"
    using b six unfolding dec_5000 remote by (auto simp: c_str_def)
  moreover have "event_what (event_buffer (''p0'' @ '' connect to remote nodeid:'' @ ''p1'' @
           '' timeout, The timeout period is:'' @ ''5000'' @ ''ms, create io channel failed!'')) =
      ''p0 connect to remote nodeid:p1 timeout, The timeout period is:5000ms, create io channel failed!''"
    by code_simp
  ultimately show ?thesis using nr by blast
qed

lemma send_at_least_once_example:
  "\<exists>conn'. servant_after write_q standard_codec (sent_params standard_codec ''p0'' ''m'' [1, 2, 3])
      (take 2 example_attempts) [''p0'' \<mapsto> conn_new ''p0''] = [''p0'' \<mapsto> conn'] \<and>
    queued conn' ''m'' = [[1, 2, 3], [1, 2, 3]]"
proof -
  have len: "length (sent_params standard_codec ''p0'' ''m'' [1, 2, 3]) = 15" by code_simp
  have "\<exists>conn' m. servant_after write_q standard_codec (sent_params standard_codec ''p0'' ''m'' [1, 2, 3])
      (take 2 example_attempts) [''p0'' \<mapsto> conn_new ''p0''] = [''p0'' \<mapsto> conn_new ''p0''](''p0'' \<mapsto> conn') \<and>
    queued conn' = (queued (conn_new ''p0''))(''m'' := queued (conn_new ''p0'') ''m'' @ replicate m [1, 2, 3]) \<and>
    m = length (filter at_executed (take 2 example_attempts)) \<and> 0 < m \<and> (3 :: int) = int (length [1, 2, 3 :: byte])"
    by (rule send_at_least_once [OF example_sent _ std.ice_codec_axioms])
      (auto simp: example_attempts_def len)
  then obtain conn' m where c: "servant_after write_q standard_codec (sent_params standard_codec ''p0'' ''m'' [1, 2, 3])
      (take 2 example_attempts) [''p0'' \<mapsto> conn_new ''p0''] = [''p0'' \<mapsto> conn_new ''p0''](''p0'' \<mapsto> conn')"
      "queued conn' = (queued (conn_new ''p0''))(''m'' := queued (conn_new ''p0'') ''m'' @ replicate m [1, 2, 3])"
      "m = length (filter at_executed (take 2 example_attempts))"
    by blast
  have "queued (conn_new ''p0'' :: byte list list ClientConnection) ''m'' = []" "m = 2"
    using c(3) by (simp_all add: queued_def conn_new_def example_attempts_def)
  then have "queued conn' ''m'' = [[1, 2, 3], [1, 2, 3]]" using c(2) by (simp add: eval_nat_numeral)
  then show ?thesis using c(1) by auto
qed

end
