(* ===== verification/Net_Io.thy ===== *)
theory Net_Io
  imports Clients "HOL-Library.Multiset"
begin

text \<open>
  \<^verbatim>\<open>core/include/net_io.h\<close> and \<^verbatim>\<open>core/src/net_io.cc\<close>: one node's network. It keeps a connection object
  for every client of the node, a client object for every server it connects to, and the server
  itself. \<open>recv\<close> and \<open>wr\<close> are \<open>ClientConnection::recv\<close> and \<open>write\<close> of either build; the build
  \<open>use_buffer\<close> also sets the buffer size. The callback \<open>handler\<close> is stored and never called, so
  the record leaves it out, as the model leaves out what is only printed.
\<close>

section \<open>State and surroundings\<close>

record ('b, 'p) BasicIO =
  io_node_info :: NodeInfo
  io_remote_server_infos :: "ViaInfo list"
  io_client_nodeids :: "string list"
  io_client_obj_map :: "string \<rightharpoonup> 'p BaseClient"
  io_client_conn_map :: "string \<rightharpoonup> 'b ClientConnection"
  io_server :: "(ice_properties \<times> string) option"

definition BasicIO :: "NodeInfo \<Rightarrow> ViaInfo list \<Rightarrow> string list \<Rightarrow> ('b, 'p) BasicIO" where
  "BasicIO node_info servers clients =
     \<lparr>io_node_info = node_info, io_remote_server_infos = servers, io_client_nodeids = clients,
      io_client_obj_map = Map.empty, io_client_conn_map = Map.empty, io_server = None\<rparr>"

text \<open>Ice, as the constructors of the servers and clients use it.\<close>

record 'p ice_lib =
  ice_init :: "ice_properties \<Rightarrow> unit res"
  ice_activate :: "string \<Rightarrow> unit res"
  ice_session :: "unit res"
  ice_proxy :: "string \<Rightarrow> 'p option res"

text \<open>
  What happens around one initialisation: for every server the clock and the fate of the calls
  made to it; for every client what its connection was sent before this node waits for it, the
  clock then, and the wake-ups of that wait; and the order in which an \<open>unordered_map\<close> visits
  the keys that were inserted.
\<close>

record surroundings =
  call_clock :: "string \<Rightarrow> int"
  call_attempts :: "string \<Rightarrow> attempt list"
  arrived :: "string \<Rightarrow> (string \<times> byte list) list"
  wait_clock :: "string \<Rightarrow> int"
  wait_wakes :: "string \<Rightarrow> wake list"
  hash_order :: "string list \<Rightarrow> string list"

section \<open>Initialisation\<close>

text \<open>\<open>config->send_timeout_ * 1000\<close>, a \<open>float\<close>, passed as \<open>uint64_t\<close>.\<close>

definition millis :: "rat \<Rightarrow> int res" where
  "millis t = float_to_uint 64 (to_float (t * 1000))"

definition init_conn ::
    "bool \<Rightarrow> ChannelConfig \<Rightarrow> string \<Rightarrow> ('b, 'p) BasicIO \<Rightarrow> ('b, 'p) BasicIO res" where
  "init_conn use_buffer cfg nid io =
     (let c = conn_new nid;
          c = (if use_buffer then SetBufferSize (buffer_size cfg) c else c) in
      res_bind (millis (send_timeout cfg)) (\<lambda>t.
      Ok (io\<lparr>io_client_conn_map := (io_client_conn_map io)(nid \<mapsto> SetRecvTimeOut t c)\<rparr>)))"

definition StartServer :: "'p ice_lib \<Rightarrow> string \<Rightarrow> NodeInfo \<Rightarrow> ('b, 'p) BasicIO \<Rightarrow> ('b, 'p) BasicIO res" where
  "StartServer ice taskid info io =
     res_bind (SyncServer (ice_init ice) (ice_activate ice) info taskid) (\<lambda>s.
     Ok (io\<lparr>io_server := Some s\<rparr>))"

definition init_client ::
    "'p ice_lib \<Rightarrow> ChannelConfig \<Rightarrow> ViaInfo \<Rightarrow> ('b, 'p) BasicIO \<Rightarrow> ('b, 'p) BasicIO res" where
  "init_client ice cfg via io =
     res_bind (BaseClient (ice_init ice) (ice_session ice) (ice_proxy ice) via (cfg_task_id cfg)) (\<lambda>c.
     res_bind (millis (send_timeout cfg)) (\<lambda>t.
     Ok (io\<lparr>io_client_obj_map := (io_client_obj_map io)(vi_id via \<mapsto> SetSendTimeOut t c)\<rparr>)))"

text \<open>The connection synchronisation flag is sent to every server.\<close>

definition sync_send :: "surroundings \<Rightarrow> string \<Rightarrow> ('b, 'p) BasicIO \<Rightarrow> ('b, 'p) BasicIO res" where
  "sync_send env remote io =
     (case io_client_obj_map io remote of
        None \<Rightarrow> Ok io
      | Some c \<Rightarrow>
          res_bind (snd (client_send (ni_id (io_node_info io)) remote [49] (call_clock env remote)
                      (call_attempts env remote) c)) (\<lambda>_. Ok io))"

text \<open>
  It is received from every client. On a timeout the event is reported with
  \<open>config->send_timeout_\<close>, a \<open>float\<close> that the variable argument list passes as a \<open>double\<close>.
\<close>

definition sync_recv ::
    "(string \<Rightarrow> int \<Rightarrow> cell list \<Rightarrow> int \<Rightarrow> wake list \<Rightarrow> 'b ClientConnection \<Rightarrow> (int \<times> cell list \<times> 'b ClientConnection) res)
     \<Rightarrow> (string \<Rightarrow> byte list \<Rightarrow> 'b ClientConnection \<Rightarrow> 'b ClientConnection res)
     \<Rightarrow> surroundings \<Rightarrow> ChannelConfig \<Rightarrow> string \<Rightarrow> ('b, 'p) BasicIO \<Rightarrow> ('b, 'p) BasicIO res" where
  "sync_recv recv wr env cfg remote io =
     (case io_client_conn_map io remote of
        None \<Rightarrow> Ok io
      | Some c \<Rightarrow>
          res_bind (res_fold (\<lambda>(m, d). wr m d) (arrived env remote) c) (\<lambda>c.
          res_bind (recv ''sync_conn'' 1 [None] (wait_clock env remote) (wait_wakes env remote) c) (\<lambda>(ret, _, c).
          if ret = 0 then
            HANDLE_EXCEPTION_EVENT C_EVENT_CODE_RECV_DATA_TIMEOUT (cfg_task_id cfg)
              [StrArg (ni_id (io_node_info io)), StrArg remote, DoubleArg (send_timeout cfg)]
          else Ok (io\<lparr>io_client_conn_map := (io_client_conn_map io)(remote \<mapsto> c)\<rparr>))))"

definition ping_server :: "surroundings \<Rightarrow> ChannelConfig \<Rightarrow> string \<Rightarrow> ('b, 'p) BasicIO \<Rightarrow> ('b, 'p) BasicIO res" where
  "ping_server env cfg remote io =
     (case io_client_obj_map io remote of
        None \<Rightarrow> Ok io
      | Some c \<Rightarrow>
          res_bind (millis (conn_timeout cfg)) (\<lambda>t.
          res_bind (float_to_uint 32 (to_float (ping_time cfg * 1000000))) (\<lambda>usec.
          res_bind (snd (CheckConnStatus (cfg_node_id cfg) t usec (call_clock env remote) (call_attempts env remote) c)) (\<lambda>_.
          Ok io))))"

definition init_objects ::
    "'p ice_lib \<Rightarrow> bool \<Rightarrow> ChannelConfig \<Rightarrow> ('b, 'p) BasicIO \<Rightarrow> ('b, 'p) BasicIO res" where
  "init_objects ice use_buffer cfg io =
     res_bind
       (if 0 < length (io_client_nodeids io) then
          res_bind (res_fold (init_conn use_buffer cfg) (io_client_nodeids io) io) (\<lambda>io.
          StartServer ice (cfg_task_id cfg) (io_node_info io) io)
        else Ok io) (\<lambda>io.
     res_fold (init_client ice cfg) (io_remote_server_infos io) io)"

definition via_init ::
    "'p ice_lib \<Rightarrow> bool
     \<Rightarrow> (string \<Rightarrow> int \<Rightarrow> cell list \<Rightarrow> int \<Rightarrow> wake list \<Rightarrow> 'b ClientConnection \<Rightarrow> (int \<times> cell list \<times> 'b ClientConnection) res)
     \<Rightarrow> (string \<Rightarrow> byte list \<Rightarrow> 'b ClientConnection \<Rightarrow> 'b ClientConnection res)
     \<Rightarrow> surroundings \<Rightarrow> ChannelConfig \<Rightarrow> ('b, 'p) BasicIO \<Rightarrow> ('b, 'p) BasicIO res" where
  "via_init ice use_buffer recv wr env cfg io =
     res_bind (init_objects ice use_buffer cfg io) (\<lambda>io.
     let objs = hash_order env (map vi_id (io_remote_server_infos io));
         conns = hash_order env (io_client_nodeids io) in
     if conn_sync cfg then
       res_bind (res_fold (sync_send env) objs io) (\<lambda>io.
       res_fold (sync_recv recv wr env cfg) conns io)
     else res_fold (ping_server env cfg) objs io)"

section \<open>Sending and receiving\<close>

definition via_recv ::
    "(string \<Rightarrow> int \<Rightarrow> cell list \<Rightarrow> int \<Rightarrow> wake list \<Rightarrow> 'b ClientConnection \<Rightarrow> (int \<times> cell list \<times> 'b ClientConnection) res)
     \<Rightarrow> string \<Rightarrow> string \<Rightarrow> cell list \<Rightarrow> int \<Rightarrow> int \<Rightarrow> wake list \<Rightarrow> ('b, 'p) BasicIO
     \<Rightarrow> (int \<times> cell list \<times> ('b, 'p) BasicIO) res" where
  "via_recv recv remote_nodeid msgid data len beg ws io =
     (case io_client_conn_map io remote_nodeid of
        None \<Rightarrow> HANDLE_EXCEPTION_EVENT C_EVENT_CODE_NO_FIND_NID '''' [StrArg remote_nodeid]
      | Some c \<Rightarrow>
          res_bind (recv msgid len data beg ws c) (\<lambda>(ret, data, c).
          Ok (ret, data, io\<lparr>io_client_conn_map := (io_client_conn_map io)(remote_nodeid \<mapsto> c)\<rparr>)))"

definition via_send ::
    "string \<Rightarrow> byte list \<Rightarrow> int \<Rightarrow> attempt list \<Rightarrow> ('b, 'p) BasicIO \<Rightarrow> nat \<times> int res" where
  "via_send remote_nodeid data now as io =
     (case io_client_obj_map io remote_nodeid of
        None \<Rightarrow> (0, HANDLE_EXCEPTION_EVENT C_EVENT_CODE_NO_FIND_NID '''' [StrArg remote_nodeid])
      | Some c \<Rightarrow> client_send (ni_id (io_node_info io)) remote_nodeid data now as c)"

section \<open>Properties\<close>

text \<open>
  What the rest relies on of a build of \<open>ClientConnection\<close>: writing and receiving leave the
  timeout alone.
\<close>

locale conn_build =
  fixes recv :: "string \<Rightarrow> int \<Rightarrow> cell list \<Rightarrow> int \<Rightarrow> wake list \<Rightarrow> 'b ClientConnection
      \<Rightarrow> (int \<times> cell list \<times> 'b ClientConnection) res"
    and wr :: "string \<Rightarrow> byte list \<Rightarrow> 'b ClientConnection \<Rightarrow> 'b ClientConnection res"
  assumes wr_timeout: "wr m d c = Ok c' \<Longrightarrow> recv_timeout c' = recv_timeout c"
    and recv_keeps: "recv m len data beg ws c = Ok (r, d', c') \<Longrightarrow> recv_timeout c' = recv_timeout c"
begin

lemma wrs_timeout: "res_fold (\<lambda>(m, d). wr m d) xs c = Ok c' \<Longrightarrow> recv_timeout c' = recv_timeout c"
  by (induction xs arbitrary: c) (auto simp: res_bind_Ok_iff wr_timeout)

lemma sync_recv_frame:
  assumes "sync_recv recv wr env cfg n io = Ok io'"
  shows "\<exists>m. io' = io\<lparr>io_client_conn_map := m\<rparr> \<and> dom m = dom (io_client_conn_map io) \<and>
    (\<forall>n. map_option recv_timeout (m n) = map_option recv_timeout (io_client_conn_map io n))"
proof (cases "io_client_conn_map io n")
  case None
  then show ?thesis using assms by (intro exI [of _ "io_client_conn_map io"]) (simp add: sync_recv_def)
next
  case (Some c)
  obtain c1 r d c2 where s: "res_fold (\<lambda>(m, d). wr m d) (arrived env n) c = Ok c1"
      "recv ''sync_conn'' 1 [None] (wait_clock env n) (wait_wakes env n) c1 = Ok (r, d, c2)"
      and io': "(if r = 0 then HANDLE_EXCEPTION_EVENT C_EVENT_CODE_RECV_DATA_TIMEOUT (cfg_task_id cfg)
            [StrArg (ni_id (io_node_info io)), StrArg n, DoubleArg (send_timeout cfg)]
          else Ok (io\<lparr>io_client_conn_map := (io_client_conn_map io)(n \<mapsto> c2)\<rparr>)) = Ok io'"
    using assms Some by (auto simp: sync_recv_def res_bind_Ok_iff)
  have t: "recv_timeout c2 = recv_timeout c" using wrs_timeout [OF s(1)] recv_keeps [OF s(2)] by simp
  have "io' = io\<lparr>io_client_conn_map := (io_client_conn_map io)(n \<mapsto> c2)\<rparr>"
    using io' by (simp split: if_splits)
  then show ?thesis
    using t Some by (intro exI [of _ "(io_client_conn_map io)(n \<mapsto> c2)"]) auto
qed

end

lemma recv_loop_timeout:
  assumes "recv_loop attempt writes t beg data ws c = Ok (r, d', c')"
    "\<And>c r d c'. attempt c = Ok (Some (r, d, c')) \<Longrightarrow> f c' = f c"
    "\<And>xs c c'. writes xs c = Ok c' \<Longrightarrow> f c' = f c"
  shows "f c' = f c"
  using assms(1)
proof (induction ws arbitrary: c)
  case Nil
  then show ?case using assms(2) by (auto simp: res_bind_Ok_iff split: option.splits)
next
  case (Cons w ws)
  then consider "attempt c = Ok (Some (r, d', c'))" | "writes (w_writes w) c = Ok c'"
    | c1 where "writes (w_writes w) c = Ok c1" "recv_loop attempt writes t beg data ws c1 = Ok (r, d', c')"
    by (auto simp: res_bind_Ok_iff split: option.splits if_splits)
  then show ?case using Cons.IH assms(2,3) by cases metis+
qed

lemma conn_write_b_timeout: "conn_write_b now m d c = Ok c' \<Longrightarrow> recv_timeout c' = recv_timeout c"
  by (auto simp: conn_write_b_def res_bind_Ok_iff)

interpretation bq: conn_build conn_recv_q "\<lambda>m d c. Ok (conn_write_q m d c)"
proof unfold_locales
  fix m len data beg ws c r d' and c' :: "byte list list ClientConnection"
  assume "conn_recv_q m len data beg ws c = Ok (r, d', c')"
  then obtain t where l: "recv_loop (conn_try_q m data) (res_fold (\<lambda>(m, d) c. Ok (conn_write_q m d c))) t beg data ws c = Ok (r, d', c')"
    by (auto simp: conn_recv_q_def split: option.splits)
  have wf: "recv_timeout (fold (\<lambda>(m, d). conn_write_q m d) xs c) = recv_timeout c" for xs c
    by (induction xs arbitrary: c) auto
  show "recv_timeout c' = recv_timeout c"
    by (rule recv_loop_timeout [OF l])
      (auto simp: conn_try_q_cases fold_writes_q wf split: list.splits if_splits)
qed simp

interpretation br: conn_build "conn_recv_b now" "conn_write_b now" for now
proof unfold_locales
  fix m len data beg ws c r d' and c' :: "cycle_buffer ClientConnection"
  assume "conn_recv_b now m len data beg ws c = Ok (r, d', c')"
  then obtain t where l: "recv_loop (conn_try_b now m len data) (res_fold (\<lambda>(m, d). conn_write_b now m d)) t beg data ws c = Ok (r, d', c')"
    by (auto simp: conn_recv_b_def split: option.splits)
  have wf: "res_fold (\<lambda>(m, d). conn_write_b now m d) xs c = Ok c' \<Longrightarrow> recv_timeout c' = recv_timeout c" for xs c c'
    by (induction xs arbitrary: c) (auto simp: res_bind_Ok_iff conn_write_b_timeout)
  show "recv_timeout c' = recv_timeout c"
    by (rule recv_loop_timeout [OF l])
      (auto simp: conn_try_b_def res_bind_Ok_iff wf split: option.splits if_splits)
qed (rule conn_write_b_timeout)

text \<open>
  A network that is ready: one connection per client, one client object per server, both with the
  configured timeout, and a server if and only if there is somebody to serve.
\<close>

definition io_ready :: "int \<Rightarrow> string set \<Rightarrow> string set \<Rightarrow> ('b, 'p) BasicIO \<Rightarrow> bool" where
  "io_ready t clients servers io \<longleftrightarrow>
     dom (io_client_conn_map io) = clients \<and> dom (io_client_obj_map io) = servers \<and>
     (\<forall>c \<in> ran (io_client_conn_map io). recv_timeout c = Some t) \<and>
     (\<forall>c \<in> ran (io_client_obj_map io). bc_send_timeout c = Some t) \<and>
     (io_server io = None \<longleftrightarrow> clients = {})"

lemma io_ready_iff:
  "io_ready t clients servers io \<longleftrightarrow>
     (\<forall>n. map_option recv_timeout (io_client_conn_map io n) = (if n \<in> clients then Some (Some t) else None)) \<and>
     (\<forall>n. map_option bc_send_timeout (io_client_obj_map io n) = (if n \<in> servers then Some (Some t) else None)) \<and>
     (io_server io = None \<longleftrightarrow> clients = {})"
proof -
  have *: "(dom m = A \<and> (\<forall>c \<in> ran m. f c = Some t)) \<longleftrightarrow>
      (\<forall>n. map_option f (m n) = (if n \<in> A then Some (Some t) else None))" for m :: "string \<rightharpoonup> 'x" and f A
  proof
    assume "dom m = A \<and> (\<forall>c \<in> ran m. f c = Some t)"
    then show "\<forall>n. map_option f (m n) = (if n \<in> A then Some (Some t) else None)" by (auto simp: ran_def)
  next
    assume r: "\<forall>n. map_option f (m n) = (if n \<in> A then Some (Some t) else None)"
    have "f c = Some t \<and> n \<in> A" if "m n = Some c" for n c
      using r that by (auto split: if_splits dest!: spec [of _ n])
    moreover have "m n \<noteq> None" if "n \<in> A" for n using r that by (auto dest!: spec [of _ n])
    ultimately show "dom m = A \<and> (\<forall>c \<in> ran m. f c = Some t)" by (auto simp: dom_def ran_def)
  qed
  show ?thesis
    unfolding io_ready_def
    by (subst conj_assoc [symmetric], subst * [symmetric], subst * [symmetric]) blast
qed

text \<open>A fresh connection, as \<open>init\<close> leaves it.\<close>

definition new_conn :: "bool \<Rightarrow> ChannelConfig \<Rightarrow> int \<Rightarrow> string \<Rightarrow> 'b ClientConnection" where
  "new_conn ub cfg t n = SetRecvTimeOut t (if ub then SetBufferSize (buffer_size cfg) (conn_new n) else conn_new n)"

lemma new_conn_fields [simp]:
  "recv_timeout (new_conn ub cfg t n) = Some t" "mapbuffer (new_conn ub cfg t n) = Map.empty"
  "conn_nodeid (new_conn ub cfg t n) = n"
  by (simp_all add: new_conn_def SetRecvTimeOut_def SetBufferSize_def conn_new_def)

lemma init_conn_fold:
  assumes "res_fold (init_conn ub cfg) ns io = Ok io'"
  shows "\<exists>m. io' = io\<lparr>io_client_conn_map := m\<rparr> \<and>
    (\<forall>n. n \<notin> set ns \<longrightarrow> m n = io_client_conn_map io n) \<and>
    (\<forall>n \<in> set ns. \<exists>t. millis (send_timeout cfg) = Ok t \<and>
      m n = Some (new_conn ub cfg t n))"
  using assms
proof (induction ns arbitrary: io' rule: rev_induct)
  case Nil
  then show ?case by (intro exI [of _ "io_client_conn_map io"]) simp
next
  case (snoc n ns)
  then obtain io1 where 1: "res_fold (init_conn ub cfg) ns io = Ok io1" "init_conn ub cfg n io1 = Ok io'"
    by (auto simp: res_fold_append res_bind_Ok_iff)
  then obtain m where m: "io1 = io\<lparr>io_client_conn_map := m\<rparr>"
      "\<forall>n. n \<notin> set ns \<longrightarrow> m n = io_client_conn_map io n"
      "\<forall>n \<in> set ns. \<exists>t. millis (send_timeout cfg) = Ok t \<and>
        m n = Some (new_conn ub cfg t n)"
    using snoc.IH by blast
  obtain t where t: "millis (send_timeout cfg) = Ok t"
      "io' = io1\<lparr>io_client_conn_map := (io_client_conn_map io1)(n \<mapsto> new_conn ub cfg t n)\<rparr>"
    using 1(2) by (auto simp: init_conn_def new_conn_def Let_def res_bind_Ok_iff)
  let ?m = "m(n \<mapsto> new_conn ub cfg t n)"
  have "io' = io\<lparr>io_client_conn_map := ?m\<rparr>" using m(1) t(2) by simp
  moreover have "\<forall>k. k \<notin> set (ns @ [n]) \<longrightarrow> ?m k = io_client_conn_map io k" using m(2) by simp
  moreover have "\<forall>k \<in> set (ns @ [n]). \<exists>t. millis (send_timeout cfg) = Ok t \<and> ?m k = Some (new_conn ub cfg t k)"
    using m(3) t(1) by simp
  ultimately show ?case by blast
qed

lemma init_client_fold:
  assumes "res_fold (init_client ice cfg) vs io = Ok io'"
    "millis (send_timeout cfg) = Ok t"
  shows "\<exists>m. io' = io\<lparr>io_client_obj_map := m\<rparr> \<and>
    (\<forall>n. map_option bc_send_timeout (m n) =
      (if n \<in> vi_id ` set vs then Some (Some t)
       else map_option bc_send_timeout (io_client_obj_map io n)))"
  using assms(1)
proof (induction vs arbitrary: io' rule: rev_induct)
  case Nil
  then show ?case by (intro exI [of _ "io_client_obj_map io"]) simp
next
  case (snoc v vs)
  then obtain io1 where 1: "res_fold (init_client ice cfg) vs io = Ok io1" "init_client ice cfg v io1 = Ok io'"
    by (auto simp: res_fold_append res_bind_Ok_iff)
  then obtain m where m: "io1 = io\<lparr>io_client_obj_map := m\<rparr>"
      "\<forall>n. map_option bc_send_timeout (m n) =
      (if n \<in> vi_id ` set vs then Some (Some t)
       else map_option bc_send_timeout (io_client_obj_map io n))"
    using snoc.IH by blast
  obtain c where t: "io' = io1\<lparr>io_client_obj_map := (io_client_obj_map io1)(vi_id v \<mapsto> SetSendTimeOut t c)\<rparr>"
    using 1(2) assms(2) by (auto simp: init_client_def res_bind_Ok_iff)
  let ?m = "m(vi_id v \<mapsto> SetSendTimeOut t c)"
  have "io' = io\<lparr>io_client_obj_map := ?m\<rparr>" using m(1) t by simp
  moreover have "map_option bc_send_timeout (?m n) =
      (if n \<in> vi_id ` set (vs @ [v]) then Some (Some t)
       else map_option bc_send_timeout (io_client_obj_map io n))" for n
    using spec [OF m(2), of n] by (cases "n = vi_id v") (auto simp: SetSendTimeOut_def)
  ultimately show ?case by blast
qed

lemma init_objects_ready:
  assumes "init_objects ice ub cfg (BasicIO info servers clients) = Ok io" "millis (send_timeout cfg) = Ok t"
  shows "io_ready t (set clients) (vi_id ` set servers) io \<and> io_node_info io = info \<and>
    io_remote_server_infos io = servers \<and> io_client_nodeids io = clients \<and>
    (\<forall>n \<in> set clients. io_client_conn_map io n =
      Some (new_conn ub cfg t n))"
proof (cases "clients = []")
  case True
  then have "res_fold (init_client ice cfg) servers (BasicIO info servers clients) = Ok io"
    using assms(1) by (simp add: init_objects_def BasicIO_def)
  from init_client_fold [OF this assms(2)] obtain m where "io = BasicIO info servers clients\<lparr>io_client_obj_map := m\<rparr>"
      "\<forall>n. map_option bc_send_timeout (m n) = (if n \<in> vi_id ` set servers then Some (Some t) else None)"
    by (elim exE conjE) (simp add: assms(2) BasicIO_def)
  then show ?thesis using True by (simp add: io_ready_iff BasicIO_def)
next
  case False
  then obtain io1 io2 where s: "res_fold (init_conn ub cfg) clients (BasicIO info servers clients) = Ok io1"
      "StartServer ice (cfg_task_id cfg) (io_node_info io1) io1 = Ok io2"
      "res_fold (init_client ice cfg) (io_remote_server_infos io2) io2 = Ok io"
    using assms(1) by (auto simp: init_objects_def res_bind_Ok_iff BasicIO_def)
  obtain m where m: "io1 = BasicIO info servers clients\<lparr>io_client_conn_map := m\<rparr>"
      "\<forall>n. n \<notin> set clients \<longrightarrow> m n = None"
      "\<forall>n \<in> set clients. m n = Some (new_conn ub cfg t n)"
    using init_conn_fold [OF s(1)] by (elim exE conjE) (simp add: assms(2) BasicIO_def)
  obtain sv where sv: "io2 = io1\<lparr>io_server := Some sv\<rparr>" using s(2) by (auto simp: StartServer_def res_bind_Ok_iff)
  obtain m' where m': "io = io2\<lparr>io_client_obj_map := m'\<rparr>"
      "\<forall>n. map_option bc_send_timeout (m' n) = (if n \<in> vi_id ` set servers then Some (Some t) else None)"
    using init_client_fold [OF s(3) assms(2)] m(1) sv by (elim exE conjE) (simp add: assms(2) BasicIO_def)
  have "map_option recv_timeout (m n) = (if n \<in> set clients then Some (Some t) else None)" for n
    using m(2,3) by (cases "n \<in> set clients") auto
  then show ?thesis
    using False m(1,3) sv m' by (simp add: io_ready_iff BasicIO_def)
qed

text \<open>Sending the flags and pinging change nothing on this side.\<close>

lemma sync_send_same: "sync_send env n io = Ok io' \<Longrightarrow> io' = io"
  by (auto simp: sync_send_def res_bind_Ok_iff split: option.splits)

lemma ping_same: "ping_server env cfg n io = Ok io' \<Longrightarrow> io' = io"
  by (auto simp: ping_server_def res_bind_Ok_iff split: option.splits)

lemma res_fold_same:
  assumes "\<And>x s s'. f x s = Ok s' \<Longrightarrow> s' = s" "res_fold f xs s = Ok t"
  shows "t = s"
  using res_fold_inv [OF assms(2), of "\<lambda>t. t = s"] assms(1) by blast

lemma via_init_split:
  assumes "via_init ice ub recv wr env cfg io0 = Ok io"
  obtains io1 where "init_objects ice ub cfg io0 = Ok io1"
    "if conn_sync cfg then res_fold (sync_send env) (hash_order env (map vi_id (io_remote_server_infos io1))) io1 = Ok io1 \<and>
       res_fold (sync_recv recv wr env cfg) (hash_order env (io_client_nodeids io1)) io1 = Ok io
     else io = io1 \<and> res_fold (ping_server env cfg) (hash_order env (map vi_id (io_remote_server_infos io1))) io1 = Ok io1"
proof -
  from assms obtain io1 where 1: "init_objects ice ub cfg io0 = Ok io1"
    and 2: "(if conn_sync cfg then
         res_bind (res_fold (sync_send env) (hash_order env (map vi_id (io_remote_server_infos io1))) io1) (\<lambda>io.
         res_fold (sync_recv recv wr env cfg) (hash_order env (io_client_nodeids io1)) io)
       else res_fold (ping_server env cfg) (hash_order env (map vi_id (io_remote_server_infos io1))) io1) = Ok io"
    by (auto simp: via_init_def Let_def res_bind_Ok_iff)
  show thesis
  proof (cases "conn_sync cfg")
    case True
    with 2 obtain io2 where "res_fold (sync_send env) (hash_order env (map vi_id (io_remote_server_infos io1))) io1 = Ok io2"
        "res_fold (sync_recv recv wr env cfg) (hash_order env (io_client_nodeids io1)) io2 = Ok io"
      by (auto simp: res_bind_Ok_iff)
    moreover have "io2 = io1" using res_fold_same [OF sync_send_same calculation(1)] .
    ultimately show thesis using that [OF 1] True by simp
  next
    case False
    with 2 have p: "res_fold (ping_server env cfg) (hash_order env (map vi_id (io_remote_server_infos io1))) io1 = Ok io"
      by simp
    moreover have "io = io1" using res_fold_same [OF ping_same p] .
    ultimately show thesis using that [OF 1] False by simp
  qed
qed

lemma io_ready_conn:
  assumes "io_ready t clients servers io"
    "\<forall>n. map_option recv_timeout (m n) = map_option recv_timeout (io_client_conn_map io n)"
  shows "io_ready t clients servers (io\<lparr>io_client_conn_map := m\<rparr>)"
  using assms unfolding io_ready_iff by simp

context conn_build
begin

lemma sync_recv_ready:
  assumes "res_fold (sync_recv recv wr env cfg) ns io = Ok io'" "io_ready t clients servers io"
  shows "io_ready t clients servers io' \<and> io_node_info io' = io_node_info io \<and>
    io_client_obj_map io' = io_client_obj_map io"
proof (rule res_fold_inv [OF assms(1)])
  fix x s s'
  assume P: "io_ready t clients servers s \<and> io_node_info s = io_node_info io \<and> io_client_obj_map s = io_client_obj_map io"
    and "sync_recv recv wr env cfg x s = Ok s'"
  then obtain m where "s' = s\<lparr>io_client_conn_map := m\<rparr>"
      "\<forall>n. map_option recv_timeout (m n) = map_option recv_timeout (io_client_conn_map s n)"
    using sync_recv_frame by blast
  then show "io_ready t clients servers s' \<and> io_node_info s' = io_node_info io \<and> io_client_obj_map s' = io_client_obj_map io"
    using P io_ready_conn [of t clients servers s m] by simp
qed (use assms(2) in simp)

lemma via_init_makes_ready:
  assumes "via_init ice ub recv wr env cfg (BasicIO info servers clients) = Ok io" "millis (send_timeout cfg) = Ok t"
  shows "io_ready t (set clients) (vi_id ` set servers) io \<and> io_node_info io = info"
proof -
  obtain io1 where 1: "init_objects ice ub cfg (BasicIO info servers clients) = Ok io1"
    "if conn_sync cfg then res_fold (sync_send env) (hash_order env (map vi_id (io_remote_server_infos io1))) io1 = Ok io1 \<and>
       res_fold (sync_recv recv wr env cfg) (hash_order env (io_client_nodeids io1)) io1 = Ok io
     else io = io1 \<and> res_fold (ping_server env cfg) (hash_order env (map vi_id (io_remote_server_infos io1))) io1 = Ok io1"
    using via_init_split [OF assms(1)] by blast
  have r: "io_ready t (set clients) (vi_id ` set servers) io1 \<and> io_node_info io1 = info"
    using init_objects_ready [OF 1(1) assms(2)] by simp
  show ?thesis
  proof (cases "conn_sync cfg")
    case True
    then have "res_fold (sync_recv recv wr env cfg) (hash_order env (io_client_nodeids io1)) io1 = Ok io"
      using 1(2) by simp
    from sync_recv_ready [OF this, of t "set clients" "vi_id ` set servers"] r show ?thesis by simp
  qed (use 1(2) r in simp)
qed

end

text \<open>
  Initialisation makes the network ready, in either build: when \<open>init\<close> returns there is one
  connection object for every client and one client object for every server, all with the
  configured timeout, and a server is running if and only if the node has clients.
\<close>

lemma init_ready:
  assumes "conn_build recv wr" "millis (send_timeout cfg) = Ok t"
    "via_init ice ub recv wr env cfg (BasicIO info servers clients) = Ok io"
  shows "io_ready t (set clients) (vi_id ` set servers) io \<and> io_node_info io = info"
  by (rule conn_build.via_init_makes_ready) (fact assms)+

text \<open>
  The flag of a client has been sent: one of the messages its connection got before or during the
  wait carries the identifier of the flag.
\<close>

definition flag_sent :: "surroundings \<Rightarrow> string \<Rightarrow> bool" where
  "flag_sent env n \<longleftrightarrow> msgs_for ''sync_conn'' (arrived env n @ concat (map w_writes (wait_wakes env n))) \<noteq> []"

text \<open>An \<open>unordered_map\<close> visits every key, and each one once.\<close>

definition visits_keys :: "surroundings \<Rightarrow> bool" where
  "visits_keys env \<longleftrightarrow> (\<forall>ks. mset (hash_order env ks) = mset ks)"

lemma visits_keys_set: "visits_keys env \<Longrightarrow> set (hash_order env ks) = set ks"
  unfolding visits_keys_def by (metis set_mset_mset)

lemma msgs_for_prefix:
  assumes "msgs_for m (concat (map w_writes (take k ws))) \<noteq> []"
  shows "msgs_for m (concat (map w_writes ws)) \<noteq> []"
proof -
  have "map w_writes ws = map w_writes (take k ws) @ map w_writes (drop k ws)"
    by (simp flip: map_append)
  then have "msgs_for m (concat (map w_writes ws)) =
      msgs_for m (concat (map w_writes (take k ws))) @ msgs_for m (concat (map w_writes (drop k ws)))"
    by (simp add: msgs_for_append)
  then show ?thesis using assms by simp
qed

lemma wait_needs_flag:
  assumes "conn_recv_q m len data beg ws c = Ok (r, d, c')" "r \<noteq> 0" "queued c m = []"
  shows "msgs_for m (concat (map w_writes ws)) \<noteq> []"
proof -
  obtain t where l: "recv_loop (conn_try_q m data) (res_fold (\<lambda>(m, d) c. Ok (conn_write_q m d c))) t beg data ws c = Ok (r, d, c')"
    using assms(1) by (auto simp: conn_recv_q_def split: option.splits)
  obtain k c1 where "res_fold (\<lambda>(m, d) c. Ok (conn_write_q m d c)) (concat (map w_writes (take k ws))) c = Ok c1"
      "conn_try_q m data c1 = Ok (Some (r, d, c'))"
    using recv_loop_outcome [OF l] assms(2) by auto
  moreover from this(2) have "queued c1 m \<noteq> []" by (auto simp: conn_try_q_cases split: list.splits)
  ultimately have "msgs_for m (concat (map w_writes (take k ws))) \<noteq> []"
    using queued_fold [of "concat (map w_writes (take k ws))" c m] assms(3) by (auto simp: fold_writes_q)
  then show ?thesis by (rule msgs_for_prefix)
qed

lemma sync_recv_flag:
  assumes "sync_recv conn_recv_q (\<lambda>m d c. Ok (conn_write_q m d c)) env cfg n io = Ok io'"
    "io_client_conn_map io n = Some c" "queued c ''sync_conn'' = []"
  shows "flag_sent env n"
proof -
  obtain r d c' where "conn_recv_q ''sync_conn'' 1 [None] (wait_clock env n) (wait_wakes env n)
      (fold (\<lambda>(m, d). conn_write_q m d) (arrived env n) c) = Ok (r, d, c')" "r \<noteq> 0"
    using assms(1,2) by (auto simp: sync_recv_def fold_writes_q res_bind_Ok_iff split: if_splits)
  then show ?thesis
    using wait_needs_flag [of "''sync_conn''" 1 "[None]"] queued_fold [of "arrived env n" c "''sync_conn''"] assms(3)
    by (cases "msgs_for ''sync_conn'' (arrived env n) = []") (auto simp: flag_sent_def msgs_for_append)
qed

lemma sync_recv_changes:
  assumes "sync_recv recv wr env cfg n io = Ok io'" "k \<noteq> n"
  shows "io_client_conn_map io' k = io_client_conn_map io k"
  using assms by (auto simp: sync_recv_def res_bind_Ok_iff split: option.splits if_splits)

lemma sync_recv_flags:
  assumes "res_fold (sync_recv conn_recv_q (\<lambda>m d c. Ok (conn_write_q m d c)) env cfg) ns io = Ok io'"
    "\<And>k. k \<in> set ns \<Longrightarrow> flag_sent env k \<or> (\<exists>c. io_client_conn_map io k = Some c \<and> queued c ''sync_conn'' = [])"
  shows "\<forall>k \<in> set ns. flag_sent env k"
  using assms
proof (induction ns arbitrary: io)
  case (Cons n ns)
  obtain io1 where 1: "sync_recv conn_recv_q (\<lambda>m d c. Ok (conn_write_q m d c)) env cfg n io = Ok io1"
      "res_fold (sync_recv conn_recv_q (\<lambda>m d c. Ok (conn_write_q m d c)) env cfg) ns io1 = Ok io'"
    using Cons.prems(1) by (auto simp: res_bind_Ok_iff)
  have n: "flag_sent env n" using Cons.prems(2) [of n] sync_recv_flag [OF 1(1)] by auto
  have "flag_sent env k \<or> (\<exists>c. io_client_conn_map io1 k = Some c \<and> queued c ''sync_conn'' = [])" if "k \<in> set ns" for k
    using Cons.prems(2) [of k] that n sync_recv_changes [OF 1(1), of k] by (cases "k = n") auto
  then show ?case using Cons.IH [OF 1(2)] n by simp
qed simp

text \<open>
  C31. The connection synchronisation is a barrier. With \<open>CONNECT_SYNC\<close> set, \<open>init\<close> does not
  return before every client of the node has sent its flag.
\<close>

theorem sync_barrier:
  assumes "conn_sync cfg" "visits_keys env" "n \<in> set clients"
    "via_init ice False conn_recv_q (\<lambda>m d c. Ok (conn_write_q m d c)) env cfg (BasicIO info servers clients) = Ok io"
  shows "flag_sent env n"
proof -
  obtain io1 where 1: "init_objects ice False cfg (BasicIO info servers clients) = Ok io1"
      "res_fold (sync_recv conn_recv_q (\<lambda>m d c. Ok (conn_write_q m d c)) env cfg) (hash_order env (io_client_nodeids io1)) io1 = Ok io"
    using via_init_split [OF assms(4)] assms(1) by metis
  have "clients \<noteq> []" using assms(3) by auto
  then obtain t where t: "millis (send_timeout cfg) = Ok t"
    using 1(1) by (cases clients) (auto simp: init_objects_def init_conn_def BasicIO_def Let_def res_bind_Ok_iff)
  have r: "io_client_nodeids io1 = clients" "\<forall>n \<in> set clients. io_client_conn_map io1 n = Some (new_conn False cfg t n)"
    using init_objects_ready [OF 1(1) t] by auto
  have "\<forall>k \<in> set (hash_order env clients). flag_sent env k"
    by (rule sync_recv_flags [OF 1(2) [unfolded r(1)]]) (use r(2) visits_keys_set [OF assms(2)] in \<open>auto simp: queued_def\<close>)
  then show ?thesis using assms(3) visits_keys_set [OF assms(2)] by simp
qed

text \<open>What a connection holds once the flag has been taken from the messages \<open>xs\<close>.\<close>

definition holds_rest :: "(string \<times> byte list) list \<Rightarrow> byte list list ClientConnection \<Rightarrow> bool" where
  "holds_rest xs c \<longleftrightarrow> queued c = (\<lambda>m. if m = ''sync_conn'' then tl (msgs_for m xs) else msgs_for m xs)"

lemma sync_recv_takes:
  assumes "io_client_conn_map io n = Some c" "recv_timeout c = Some t" "\<And>m. queued c m = []"
    "msgs_for ''sync_conn'' (arrived env n) = [b] # rest"
  shows "\<exists>c'. sync_recv conn_recv_q (\<lambda>m d c. Ok (conn_write_q m d c)) env cfg n io =
      Ok (io\<lparr>io_client_conn_map := (io_client_conn_map io)(n \<mapsto> c')\<rparr>) \<and> holds_rest (arrived env n) c'"
proof -
  let ?c = "fold (\<lambda>(m, d). conn_write_q m d) (arrived env n) c"
  have q: "queued ?c m = msgs_for m (arrived env n)" for m using queued_fold [of "arrived env n" c m] assms(3) by simp
  have t: "recv_timeout ?c = Some t" using bq.wrs_timeout [of "arrived env n" c ?c] assms(2) by (simp add: fold_writes_q)
  let ?c' = "?c\<lparr>mapbuffer := (mapbuffer ?c)(''sync_conn'' \<mapsto> rest)\<rparr>"
  have tk: "conn_try_q ''sync_conn'' [None] ?c = Ok (Some (1, [Some b], ?c'))"
    using q [of "''sync_conn''"] assms(4) by (simp add: conn_try_q_cases)
  have "conn_recv_q ''sync_conn'' 1 [None] (wait_clock env n) (wait_wakes env n) ?c = Ok (1, [Some b], ?c')"
    using t tk by (cases "wait_wakes env n") (simp_all add: conn_recv_q_def)
  moreover have "queued ?c' m = (if m = ''sync_conn'' then tl (msgs_for m (arrived env n)) else msgs_for m (arrived env n))" for m
  proof -
    have "queued ?c' m = (if m = ''sync_conn'' then rest else queued ?c m)" by (simp add: queued_def)
    then show ?thesis using q [of m] assms(4) by simp
  qed
  ultimately show ?thesis
    using assms(1) by (intro exI [of _ ?c']) (simp add: sync_recv_def fold_writes_q holds_rest_def fun_eq_iff)
qed

lemma sync_recv_all:
  assumes "distinct ns" "\<And>n. n \<in> set ns \<Longrightarrow> \<exists>b rest. msgs_for ''sync_conn'' (arrived env n) = [b] # rest"
    "\<And>n. n \<in> set ns \<Longrightarrow> io_client_conn_map io n = Some (new_conn False cfg t n)"
  shows "\<exists>io'. res_fold (sync_recv conn_recv_q (\<lambda>m d c. Ok (conn_write_q m d c)) env cfg) ns io = Ok io' \<and>
    (\<forall>n \<in> set ns. \<exists>c. io_client_conn_map io' n = Some c \<and> holds_rest (arrived env n) c) \<and>
    (\<forall>n. n \<notin> set ns \<longrightarrow> io_client_conn_map io' n = io_client_conn_map io n)"
  using assms
proof (induction ns arbitrary: io)
  case (Cons n ns)
  obtain b rest where b: "msgs_for ''sync_conn'' (arrived env n) = [b] # rest" using Cons.prems(2) [of n] by auto
  obtain c where c: "sync_recv conn_recv_q (\<lambda>m d c. Ok (conn_write_q m d c)) env cfg n io =
      Ok (io\<lparr>io_client_conn_map := (io_client_conn_map io)(n \<mapsto> c)\<rparr>)" "holds_rest (arrived env n) c"
    using sync_recv_takes [OF Cons.prems(3) [of n] _ _ b] by (auto simp: queued_def)
  let ?io = "io\<lparr>io_client_conn_map := (io_client_conn_map io)(n \<mapsto> c)\<rparr>"
  have "\<exists>io'. res_fold (sync_recv conn_recv_q (\<lambda>m d c. Ok (conn_write_q m d c)) env cfg) ns ?io = Ok io' \<and>
    (\<forall>n \<in> set ns. \<exists>c. io_client_conn_map io' n = Some c \<and> holds_rest (arrived env n) c) \<and>
    (\<forall>k. k \<notin> set ns \<longrightarrow> io_client_conn_map io' k = io_client_conn_map ?io k)"
    by (rule Cons.IH) (use Cons.prems in auto)
  then show ?case using c Cons.prems(1) by fastforce
qed simp

lemma sync_phases:
  assumes "visits_keys env" "distinct clients" "millis (send_timeout cfg) = Ok t"
    "init_objects ice False cfg (BasicIO info servers clients) = Ok (io1 :: (byte list list, 'p) BasicIO)"
    "\<And>v. v \<in> set servers \<Longrightarrow> \<exists>a as. call_attempts env (vi_id v) = a # as \<and> \<not> at_failed a"
    "\<And>n. n \<in> set clients \<Longrightarrow> \<exists>b rest. msgs_for ''sync_conn'' (arrived env n) = [b] # rest"
  shows "\<exists>io. res_bind (res_fold (sync_send env) (hash_order env (map vi_id (io_remote_server_infos io1))) io1)
        (res_fold (sync_recv conn_recv_q (\<lambda>m d c. Ok (conn_write_q m d c)) env cfg) (hash_order env (io_client_nodeids io1))) = Ok io \<and>
    (\<forall>n \<in> set clients. \<exists>c. io_client_conn_map io n = Some c \<and> holds_rest (arrived env n) c)"
proof -
  have r: "io_ready t (set clients) (vi_id ` set servers) io1" "io_client_nodeids io1 = clients"
      "io_remote_server_infos io1 = servers" "\<forall>n \<in> set clients. io_client_conn_map io1 n = Some (new_conn False cfg t n)"
    using init_objects_ready [OF assms(4,3)] by simp_all
  have one: "sync_send env n io1 = Ok io1" if nv: "n \<in> vi_id ` set servers" for n
  proof -
    have "dom (io_client_obj_map io1) = vi_id ` set servers" "\<forall>c \<in> ran (io_client_obj_map io1). bc_send_timeout c = Some t"
      using r(1) unfolding io_ready_def by blast+
    moreover from this(1) nv obtain c where "io_client_obj_map io1 n = Some c" by (metis domD)
    ultimately have c: "io_client_obj_map io1 n = Some c" "bc_send_timeout c = Some t" by (auto intro: ranI)
    obtain a as where "call_attempts env n = a # as" "\<not> at_failed a" using assms(5) nv by (elim imageE) metis
    then show ?thesis using c by (simp add: sync_send_def client_send_def)
  qed
  have "\<exists>s. res_fold (sync_send env) (hash_order env (map vi_id servers)) io1 = Ok s \<and> s = io1"
    by (rule res_fold_total [where P = "\<lambda>s. s = io1"]) (use one visits_keys_set [OF assms(1)] in auto)
  then have s: "res_fold (sync_send env) (hash_order env (map vi_id servers)) io1 = Ok io1" by simp
  have "mset (hash_order env clients) = mset clients" using assms(1) by (simp add: visits_keys_def)
  then have d: "distinct (hash_order env clients)" using assms(2) mset_eq_imp_distinct_iff by blast
  have "\<exists>io. res_fold (sync_recv conn_recv_q (\<lambda>m d c. Ok (conn_write_q m d c)) env cfg) (hash_order env clients) io1 = Ok io \<and>
    (\<forall>n \<in> set (hash_order env clients). \<exists>c. io_client_conn_map io n = Some c \<and> holds_rest (arrived env n) c) \<and>
    (\<forall>n. n \<notin> set (hash_order env clients) \<longrightarrow> io_client_conn_map io n = io_client_conn_map io1 n)"
    by (rule sync_recv_all [where t = t, OF d]) (use assms(6) r(4) visits_keys_set [OF assms(1)] in auto)
  then show ?thesis using s r(2,3) visits_keys_set [OF assms(1)] by auto
qed

lemma via_init_sync:
  assumes "conn_sync cfg" "init_objects ice ub cfg io0 = Ok io1"
  shows "via_init ice ub recv wr env cfg io0 =
    res_bind (res_fold (sync_send env) (hash_order env (map vi_id (io_remote_server_infos io1))) io1)
      (res_fold (sync_recv recv wr env cfg) (hash_order env (io_client_nodeids io1)))"
  using assms by (simp add: via_init_def)

text \<open>
  C32. The synchronisation completes. When every server answers the first call and the flag of
  every client has arrived, \<open>init\<close> returns, the flags have been consumed, and everything else the
  clients sent meanwhile is still there to be received, in order.
\<close>

theorem sync_completes:
  assumes "conn_sync cfg" "visits_keys env" "distinct clients" "millis (send_timeout cfg) = Ok t"
    "init_objects ice False cfg (BasicIO info servers clients) = Ok (io1 :: (byte list list, 'p) BasicIO)"
    "\<And>v. v \<in> set servers \<Longrightarrow> \<exists>a as. call_attempts env (vi_id v) = a # as \<and> \<not> at_failed a"
    "\<And>n. n \<in> set clients \<Longrightarrow> \<exists>b rest. msgs_for ''sync_conn'' (arrived env n) = [b] # rest"
  shows "\<exists>io. via_init ice False conn_recv_q (\<lambda>m d c. Ok (conn_write_q m d c)) env cfg (BasicIO info servers clients) = Ok io \<and>
    (\<forall>n \<in> set clients. \<exists>c. io_client_conn_map io n = Some c \<and> holds_rest (arrived env n) c)"
  unfolding via_init_sync [OF assms(1,5)] by (rule sync_phases [OF assms(2-5)]) (use assms(6,7) in blast)+

text \<open>Without synchronisation: a server that answers the first ping is done with.\<close>

lemma ping_answered:
  assumes "millis (conn_timeout cfg) = Ok t" "float_to_uint 32 (to_float (ping_time cfg * 1000000)) = Ok p"
    "call_attempts env n = a # as" "\<not> at_failed a"
  shows "ping_server env cfg n io = Ok io"
  using assms by (simp add: ping_server_def CheckConnStatus_def split: option.split)

lemma via_init_pings:
  assumes "\<not> conn_sync cfg" "init_objects ice ub cfg io0 = Ok io1" "millis (conn_timeout cfg) = Ok t"
    "float_to_uint 32 (to_float (ping_time cfg * 1000000)) = Ok p"
    "\<And>n. \<exists>a as. call_attempts env n = a # as \<and> \<not> at_failed a"
  shows "via_init ice ub recv wr env cfg io0 = Ok io1"
proof -
  have "ping_server env cfg n io1 = Ok io1" for n using ping_answered [OF assms(3,4)] assms(5) by metis
  then have "res_fold (ping_server env cfg) ns io1 = Ok io1" for ns by (induction ns) simp_all
  then show ?thesis using assms(1,2) by (simp add: via_init_def)
qed

text \<open>
  The report of a missing flag is undefined: the message asks for a \<open>long\<close> and gets a \<open>double\<close>.
\<close>

lemma sync_timeout_undefined:
  assumes "io_client_conn_map io n = Some c" "res_fold (\<lambda>(m, d). wr m d) (arrived env n) c = Ok c1"
    "recv ''sync_conn'' 1 [None] (wait_clock env n) (wait_wakes env n) c1 = Ok (0, d, c2)"
  shows "sync_recv recv wr env cfg n io = Throw (Undefined ''vsnprintf'')"
proof -
  have "HANDLE_EXCEPTION_EVENT C_EVENT_CODE_RECV_DATA_TIMEOUT (cfg_task_id cfg)
      [StrArg (ni_id (io_node_info io)), StrArg n, DoubleArg (send_timeout cfg)] = (Throw (Undefined ''vsnprintf'') :: ('a, 'b) BasicIO res)"
    by (simp add: HANDLE_EXCEPTION_EVENT_eq C_MAP_EVENTS_def event_codes)
  then show ?thesis using assms by (simp add: sync_recv_def)
qed

text \<open>
  Example: node \<open>p1\<close> of the example task with the client and server \<open>p0\<close>. Ice accepts
  everything, the first call succeeds, and \<open>p0\<close> has sent its flag between two other messages.
\<close>

definition example_ice :: "unit ice_lib" where
  "example_ice = \<lparr>ice_init = (\<lambda>_. Ok ()), ice_activate = (\<lambda>_. Ok ()), ice_session = Ok (), ice_proxy = (\<lambda>_. Ok (Some ()))\<rparr>"

definition example_env :: surroundings where
  "example_env = \<lparr>call_clock = (\<lambda>_. 0), call_attempts = (\<lambda>_. [\<lparr>at_executed = True, at_failed = False, at_took = 5, at_late = 0\<rparr>]),
     arrived = (\<lambda>_. [(''a'', [1]), (''sync_conn'', [49]), (''a'', [2])]), wait_clock = (\<lambda>_. 0), wait_wakes = (\<lambda>_. []),
     hash_order = rev\<rparr>"

definition sync_cfg :: ChannelConfig where
  "sync_cfg = ChannelConfig_new\<lparr>conn_sync := True\<rparr>"

abbreviation example_init :: "(byte list list, unit) BasicIO res" where
  "example_init \<equiv> via_init example_ice False conn_recv_q (\<lambda>m d c. Ok (conn_write_q m d c)) example_env sync_cfg
     (BasicIO example_info [example_via\<lparr>vi_id := ''p0''\<rparr>] [''p0''])"

lemma example_millis: "millis (send_timeout sync_cfg) = Ok 5000"
  by code_simp

lemma example_objects:
  "\<exists>io1. init_objects example_ice False sync_cfg (BasicIO example_info [example_via\<lparr>vi_id := ''p0''\<rparr>] [''p0'']) = Ok (io1 :: (byte list list, unit) BasicIO)"
proof -
  have "case init_objects example_ice False sync_cfg (BasicIO example_info [example_via\<lparr>vi_id := ''p0''\<rparr>] [''p0'']) of
      Ok (io1 :: (byte list list, unit) BasicIO) \<Rightarrow> True | _ \<Rightarrow> False"
    by code_simp
  then show ?thesis by (simp split: res.splits)
qed

lemma example_visits: "visits_keys example_env"
  by (simp add: visits_keys_def example_env_def)

theorem sync_completes_witness:
  "\<exists>io. example_init = Ok io \<and> (\<exists>c. io_client_conn_map io ''p0'' = Some c \<and> holds_rest (arrived example_env ''p0'') c)"
proof -
  obtain io1 :: "(byte list list, unit) BasicIO" where io1:
      "init_objects example_ice False sync_cfg (BasicIO example_info [example_via\<lparr>vi_id := ''p0''\<rparr>] [''p0'']) = Ok io1"
    using example_objects by blast
  have "\<exists>io. example_init = Ok io \<and> (\<forall>n \<in> set [''p0'']. \<exists>c. io_client_conn_map io n = Some c \<and> holds_rest (arrived example_env n) c)"
    by (rule sync_completes [OF _ example_visits _ example_millis io1])
      (simp_all add: sync_cfg_def, simp_all add: example_env_def)
  then show ?thesis by simp
qed

lemma example_init_ok: "\<exists>io. example_init = Ok io"
proof -
  obtain io1 :: "(byte list list, unit) BasicIO" where io1:
      "init_objects example_ice False sync_cfg (BasicIO example_info [example_via\<lparr>vi_id := ''p0''\<rparr>] [''p0'']) = Ok io1"
    using example_objects by blast
  have "conn_sync sync_cfg" by (simp add: sync_cfg_def)
  note e = via_init_sync [OF this io1]
  have "\<exists>io. example_init = Ok io \<and> (\<forall>n \<in> set [''p0'']. \<exists>c. io_client_conn_map io n = Some c \<and> holds_rest (arrived example_env n) c)"
    unfolding e by (rule sync_phases [OF example_visits _ example_millis io1]) (simp_all add: example_env_def)
  then show ?thesis by blast
qed

theorem sync_barrier_witness: "flag_sent example_env ''p0''"
proof -
  obtain io where "example_init = Ok io" using example_init_ok by blast
  then show ?thesis by (rule sync_barrier [OF _ example_visits, rotated 2]) (simp_all add: sync_cfg_def)
qed

lemma init_ready_example: "\<exists>io. example_init = Ok io \<and> io_ready 5000 {''p0''} {''p0''} io"
proof -
  obtain io where io: "example_init = Ok io" using example_init_ok by blast
  from init_ready [OF bq.conn_build_axioms example_millis io] io show ?thesis by simp
qed

end
