(* ===== verification/Node_Ids.thy ===== *)
theory Node_Ids
  imports Chan_Prelude
begin

text \<open>
  The C structures a channel hands out (\<^verbatim>\<open>core/include/IChannel.h\<close>) and how they are built and freed
  (\<^verbatim>\<open>core/src/tcp_channel.cc\<close>). Memory is a map from addresses to blocks. Where a block is put is up to
  the allocator, a parameter; freed addresses may be used again. \<open>delete\<close> and \<open>delete[]\<close> of
  anything but a live block of their own kind are undefined.
\<close>

section \<open>Memory\<close>

datatype block =
    CharArray "char list"
  | PtrArray "nat option list"
  | NodeIDVec int nat
  | NodeIDPair nat int
  | NodeIDMap int nat

type_synonym heap = "nat \<rightharpoonup> block"
type_synonym allocator = "heap \<Rightarrow> nat"

text \<open>What is documented of \<open>new\<close>: the block is not one that is in use.\<close>

definition fresh_alloc :: "allocator \<Rightarrow> bool" where
  "fresh_alloc alloc \<longleftrightarrow> (\<forall>h. finite (dom h) \<longrightarrow> alloc h \<notin> dom h)"

definition new_block :: "allocator \<Rightarrow> block \<Rightarrow> heap \<Rightarrow> nat \<times> heap" where
  "new_block alloc b h = (let a = alloc h in (a, h(a \<mapsto> b)))"

definition delete_array :: "nat \<Rightarrow> heap \<Rightarrow> heap res" where
  "delete_array a h =
     (case h a of
        Some (CharArray _) \<Rightarrow> Ok (h(a := None))
      | Some (PtrArray _) \<Rightarrow> Ok (h(a := None))
      | _ \<Rightarrow> Throw (Undefined ''delete[]''))"

definition delete_object :: "nat \<Rightarrow> heap \<Rightarrow> heap res" where
  "delete_object a h =
     (case h a of
        Some (NodeIDVec _ _) \<Rightarrow> Ok (h(a := None))
      | Some (NodeIDPair _ _) \<Rightarrow> Ok (h(a := None))
      | Some (NodeIDMap _ _) \<Rightarrow> Ok (h(a := None))
      | _ \<Rightarrow> Throw (Undefined ''delete''))"

text \<open>\<open>p[i]\<close> for an array of pointers that have been set, and its assignment.\<close>

definition load_ptr :: "nat \<Rightarrow> nat \<Rightarrow> heap \<Rightarrow> nat res" where
  "load_ptr arr i h =
     (case h arr of
        Some (PtrArray ps) \<Rightarrow>
          (if i < length ps then (case ps ! i of Some p \<Rightarrow> Ok p | None \<Rightarrow> Throw (Undefined ''uninitialised''))
           else Throw (Undefined ''index''))
      | _ \<Rightarrow> Throw (Undefined ''index''))"

definition store_ptr :: "nat \<Rightarrow> nat \<Rightarrow> nat \<Rightarrow> heap \<Rightarrow> heap" where
  "store_ptr arr i p h =
     (case h arr of Some (PtrArray ps) \<Rightarrow> h(arr \<mapsto> PtrArray (ps[i := Some p])) | _ \<Rightarrow> h)"

section \<open>Encoding\<close>

text \<open>\<open>memset\<close> of \<open>size + 1\<close> characters, then \<open>memcpy\<close> of \<open>size\<close> of them.\<close>

definition char_copy :: "string \<Rightarrow> char list" where
  "char_copy str = str @ drop (length str) (replicate (length str + 1) (CHR 0x00))"

definition encode_string :: "allocator \<Rightarrow> string \<Rightarrow> heap \<Rightarrow> nat \<times> heap" where
  "encode_string alloc str h = new_block alloc (CharArray (char_copy str)) h"

text \<open>One turn of the loop of \<open>encode_vector\<close>.\<close>

definition vector_turn :: "allocator \<Rightarrow> nat \<Rightarrow> nat \<times> string \<Rightarrow> heap \<Rightarrow> heap" where
  "vector_turn alloc arr x h =
     (case x of (i, s) \<Rightarrow>
      let (p, h) = new_block alloc (CharArray (char_copy s)) h in store_ptr arr i p h)"

definition encode_vector :: "allocator \<Rightarrow> string list \<Rightarrow> heap \<Rightarrow> nat \<times> heap" where
  "encode_vector alloc vec h =
     (let (res, h) = new_block alloc (NodeIDVec 0 0) h;
          (arr, h) = new_block alloc (PtrArray (replicate (length vec) None)) h;
          h = h(res \<mapsto> NodeIDVec (to_i32 (int (length vec))) arr) in
      (res, fold (vector_turn alloc arr) (enumerate 0 vec) h))"

definition map_turn :: "allocator \<Rightarrow> nat \<Rightarrow> nat \<times> string \<times> int \<Rightarrow> heap \<Rightarrow> heap" where
  "map_turn alloc arr x h =
     (case x of (i, s, party) \<Rightarrow>
      let (q, h) = new_block alloc (NodeIDPair 0 0) h;
          h = store_ptr arr i q h;
          (p, h) = new_block alloc (CharArray (char_copy s)) h in
      h(q \<mapsto> NodeIDPair p party))"

definition encode_map :: "allocator \<Rightarrow> (string \<times> int) list \<Rightarrow> heap \<Rightarrow> nat \<times> heap" where
  "encode_map alloc m h =
     (let (pointer, h) = new_block alloc (NodeIDMap 0 0) h;
          (arr, h) = new_block alloc (PtrArray (replicate (length m) None)) h;
          h = h(pointer \<mapsto> NodeIDMap (to_i32 (int (length m))) arr) in
      (pointer, fold (map_turn alloc arr) (enumerate 0 m) h))"

section \<open>Freeing\<close>

text \<open>The bodies of the five \<open>Destroy\<close> functions, for the three structures.\<close>

definition free_vector :: "nat \<Rightarrow> heap \<Rightarrow> heap res" where
  "free_vector p h =
     (case h p of
        Some (NodeIDVec n arr) \<Rightarrow>
          res_bind (res_fold (\<lambda>i h. res_bind (load_ptr arr i h) (\<lambda>q. delete_array q h)) [0..<nat n] h) (\<lambda>h.
          res_bind (delete_array arr h) (delete_object p))
      | _ \<Rightarrow> Throw (Undefined ''dereference''))"

definition free_pair :: "nat \<Rightarrow> heap \<Rightarrow> heap res" where
  "free_pair q h =
     (case h q of
        Some (NodeIDPair p _) \<Rightarrow> res_bind (delete_array p h) (delete_object q)
      | _ \<Rightarrow> Throw (Undefined ''dereference''))"

definition free_map :: "nat \<Rightarrow> heap \<Rightarrow> heap res" where
  "free_map p h =
     (case h p of
        Some (NodeIDMap n arr) \<Rightarrow>
          res_bind (res_fold (\<lambda>i h. res_bind (load_ptr arr i h) (\<lambda>q. free_pair q h)) [0..<nat n] h) (\<lambda>h.
          res_bind (delete_array arr h) (delete_object p))
      | _ \<Rightarrow> Throw (Undefined ''dereference''))"

section \<open>Memory that grows\<close>

text \<open>
  \<open>grows X h h' A\<close>: from \<open>h\<close> to \<open>h'\<close> the fresh addresses \<open>A\<close> came into use and, outside of
  \<open>X\<close>, nothing that was there has changed.
\<close>

definition grows :: "nat set \<Rightarrow> heap \<Rightarrow> heap \<Rightarrow> nat set \<Rightarrow> bool" where
  "grows X h h' A \<longleftrightarrow> finite A \<and> A \<inter> dom h = {} \<and> dom h' = dom h \<union> A \<and> (\<forall>a \<in> dom h - X. h' a = h a)"

lemma grows_refl: "grows X h h {}"
  by (simp add: grows_def)

lemma grows_trans:
  assumes "grows X h h1 A1" "grows Y h1 h2 A2" "Y \<subseteq> X \<union> A1"
  shows "grows X h h2 (A1 \<union> A2)"
proof -
  have "h2 a = h a" if "a \<in> dom h - X" for a
  proof -
    have "a \<in> dom h1 - Y" using assms that by (auto simp: grows_def)
    then have "h2 a = h1 a" using assms(2) unfolding grows_def by blast
    also have "h1 a = h a" using assms(1) that unfolding grows_def by blast
    finally show ?thesis .
  qed
  moreover have "finite (A1 \<union> A2)" "(A1 \<union> A2) \<inter> dom h = {}" "dom h2 = dom h \<union> (A1 \<union> A2)"
    using assms(1,2) unfolding grows_def by auto
  ultimately show ?thesis unfolding grows_def by blast
qed

lemma grows_disjoint: "grows X h h1 A1 \<Longrightarrow> grows Y h1 h2 A2 \<Longrightarrow> A1 \<inter> A2 = {}"
  by (auto simp: grows_def)

lemma grows_keeps: "grows X h h1 A1 \<Longrightarrow> grows Y h1 h2 A2 \<Longrightarrow> a \<in> A1 \<Longrightarrow> a \<notin> Y \<Longrightarrow> h2 a = h1 a"
  by (auto simp: grows_def)

lemma grows_finite: "grows X h h' A \<Longrightarrow> finite (dom h) \<Longrightarrow> finite (dom h')"
  by (auto simp: grows_def)

lemma new_block_grows:
  assumes "fresh_alloc alloc" "finite (dom h)" "new_block alloc b h = (p, h')"
  shows "grows {} h h' {p}" "h' p = Some b"
proof -
  have "p = alloc h" "h' = h(p \<mapsto> b)" using assms(3) by (auto simp: new_block_def Let_def)
  moreover have "alloc h \<notin> dom h" using assms(1,2) by (simp add: fresh_alloc_def)
  ultimately show "grows {} h h' {p}" "h' p = Some b" by (auto simp: grows_def)
qed

lemma write_grows: "a \<in> dom h \<Longrightarrow> grows {a} h (h(a \<mapsto> b)) {}"
  by (auto simp: grows_def)

lemma store_ptr_grows:
  assumes "h arr = Some (PtrArray ps)"
  shows "grows {arr} h (store_ptr arr i p h) {}" "store_ptr arr i p h arr = Some (PtrArray (ps[i := Some p]))"
  using assms write_grows [of arr h] by (auto simp: store_ptr_def)

lemma grows_undo:
  assumes "grows {} h h' A"
  shows "h' |` (- A) = h"
proof
  fix a
  show "(h' |` (- A)) a = h a"
  proof (cases "a \<in> dom h")
    case True
    then show ?thesis using assms by (auto simp: grows_def restrict_map_def)
  next
    case False
    then show ?thesis using assms by (auto simp: grows_def restrict_map_def)
  qed
qed

section \<open>The contract of a structure in memory\<close>

text \<open>
  \<open>at v p h A\<close>: at \<open>p\<close> the memory \<open>h\<close> holds the structure for \<open>v\<close>, on exactly the addresses
  \<open>A\<close>. Building it takes fresh addresses only; freeing it succeeds and gives back exactly those;
  it depends on nothing else; and it determines the value.
\<close>

locale owned_layout =
  fixes at :: "'v \<Rightarrow> nat \<Rightarrow> heap \<Rightarrow> nat set \<Rightarrow> bool"
    and enc :: "allocator \<Rightarrow> 'v \<Rightarrow> heap \<Rightarrow> nat \<times> heap"
    and free :: "nat \<Rightarrow> heap \<Rightarrow> heap res"
    and small :: "'v \<Rightarrow> bool"
  assumes enc_law: "fresh_alloc alloc \<Longrightarrow> finite (dom h) \<Longrightarrow> small v \<Longrightarrow> enc alloc v h = (p, h') \<Longrightarrow>
      \<exists>A. at v p h' A \<and> grows {} h h' A"
    and free_law: "at v p h A \<Longrightarrow> free p h = Ok (h |` (- A))"
    and at_frame: "at v p h A \<Longrightarrow> (\<And>a. a \<in> A \<Longrightarrow> h' a = h a) \<Longrightarrow> at v p h' A"
    and at_dom: "at v p h A \<Longrightarrow> A \<subseteq> dom h \<and> p \<in> A"
    and at_unique: "at v p h A \<Longrightarrow> at v' p h A' \<Longrightarrow> v' = v \<and> A' = A"
begin

lemma enc_then_free:
  assumes "fresh_alloc alloc" "finite (dom h)" "small v" "enc alloc v h = (p, h')"
  shows "free p h' = Ok h"
proof -
  obtain A where A: "at v p h' A" "grows {} h h' A" using enc_law [OF assms] by blast
  have "h' |` (- A) = h" by (rule grows_undo [OF A(2)])
  then show ?thesis using free_law [OF A(1)] by simp
qed

end

text \<open>Elements one after the other on disjoint addresses, and a header with an array of pointers to them.\<close>

fun seq_at :: "('v \<Rightarrow> nat \<Rightarrow> heap \<Rightarrow> nat set \<Rightarrow> bool) \<Rightarrow> 'v list \<Rightarrow> nat list \<Rightarrow> heap \<Rightarrow> nat set \<Rightarrow> bool" where
  "seq_at elem_at [] [] h A = (A = {})"
| "seq_at elem_at (v # vs) (p # ps) h A =
     (\<exists>A1 A2. elem_at v p h A1 \<and> seq_at elem_at vs ps h A2 \<and> A1 \<inter> A2 = {} \<and> A = A1 \<union> A2)"
| "seq_at elem_at _ _ h A = False"

definition arr_at ::
    "('v \<Rightarrow> nat \<Rightarrow> heap \<Rightarrow> nat set \<Rightarrow> bool) \<Rightarrow> (int \<Rightarrow> nat \<Rightarrow> block) \<Rightarrow> 'v list \<Rightarrow> nat \<Rightarrow> heap \<Rightarrow> nat set \<Rightarrow> bool" where
  "arr_at elem_at hdr vs p h A \<longleftrightarrow>
     (\<exists>arr ps B. h p = Some (hdr (int (length vs)) arr) \<and> h arr = Some (PtrArray (map Some ps)) \<and>
       seq_at elem_at vs ps h B \<and> p \<notin> B \<and> arr \<notin> B \<and> A = insert p (insert arr B))"

lemma seq_at_ConsE:
  assumes "seq_at e (v # vs) ps h A"
  obtains p qs A1 A2 where "ps = p # qs" "e v p h A1" "seq_at e vs qs h A2" "A1 \<inter> A2 = {}" "A = A1 \<union> A2"
  using assms by (cases ps) auto

lemma seq_at_ConsI:
  "e v p h A1 \<Longrightarrow> seq_at e vs ps h A2 \<Longrightarrow> A1 \<inter> A2 = {} \<Longrightarrow> seq_at e (v # vs) (p # ps) h (A1 \<union> A2)"
  by auto

lemma seq_at_Nil: "seq_at e [] ps h A \<longleftrightarrow> ps = [] \<and> A = {}"
  by (cases ps) auto

lemma seq_length: "seq_at e vs ps h A \<Longrightarrow> length ps = length vs"
  by (induction vs arbitrary: ps A) (auto simp: seq_at_Nil elim: seq_at_ConsE)

text \<open>
  A structure with a header, an array of pointers and one element per pointer. \<open>turn\<close> is one
  turn of the loop that builds it, \<open>elem_at\<close> and \<open>free_elem\<close> are the layout of an element.
\<close>

locale array_layout =
  fixes elem_at :: "'v \<Rightarrow> nat \<Rightarrow> heap \<Rightarrow> nat set \<Rightarrow> bool"
    and turn :: "allocator \<Rightarrow> nat \<Rightarrow> nat \<times> 'v \<Rightarrow> heap \<Rightarrow> heap"
    and free_elem :: "nat \<Rightarrow> heap \<Rightarrow> heap res"
    and hdr :: "int \<Rightarrow> nat \<Rightarrow> block"
    and enc :: "allocator \<Rightarrow> 'v list \<Rightarrow> heap \<Rightarrow> nat \<times> heap"
    and free :: "nat \<Rightarrow> heap \<Rightarrow> heap res"
  assumes turn_law: "fresh_alloc alloc \<Longrightarrow> finite (dom h) \<Longrightarrow> h arr = Some (PtrArray ps) \<Longrightarrow>
      \<exists>p A. elem_at v p (turn alloc arr (i, v) h) A \<and> grows {arr} h (turn alloc arr (i, v) h) A \<and>
        turn alloc arr (i, v) h arr = Some (PtrArray (ps[i := Some p]))"
    and elem_free: "elem_at v p h A \<Longrightarrow> free_elem p h = Ok (h |` (- A))"
    and elem_frame: "elem_at v p h A \<Longrightarrow> (\<And>a. a \<in> A \<Longrightarrow> h' a = h a) \<Longrightarrow> elem_at v p h' A"
    and elem_dom: "elem_at v p h A \<Longrightarrow> A \<subseteq> dom h \<and> p \<in> A"
    and elem_unique: "elem_at v p h A \<Longrightarrow> elem_at v' p h A' \<Longrightarrow> v' = v \<and> A' = A"
    and hdr_inj: "hdr n a = hdr n' a' \<longleftrightarrow> n = n' \<and> a = a'"
    and hdr_not_array: "hdr n a \<noteq> PtrArray ps"
    and hdr_delete: "h p = Some (hdr n a) \<Longrightarrow> delete_object p h = Ok (h(p := None))"
    and enc_eq: "enc alloc vs h =
      (let (res, h) = new_block alloc (hdr 0 0) h;
           (arr, h) = new_block alloc (PtrArray (replicate (length vs) None)) h;
           h = h(res \<mapsto> hdr (to_i32 (int (length vs))) arr) in
       (res, fold (turn alloc arr) (enumerate 0 vs) h))"
    and free_eq: "h p = Some (hdr n arr) \<Longrightarrow> free p h =
      res_bind (res_fold (\<lambda>i h. res_bind (load_ptr arr i h) (\<lambda>q. free_elem q h)) [0..<nat n] h) (\<lambda>h.
      res_bind (delete_array arr h) (delete_object p))"
begin

lemma seq_frame: "seq_at elem_at vs ps h A \<Longrightarrow> (\<And>a. a \<in> A \<Longrightarrow> h' a = h a) \<Longrightarrow> seq_at elem_at vs ps h' A"
proof (induction vs arbitrary: ps A)
  case (Cons v vs)
  obtain p qs A1 A2 where p: "ps = p # qs" "elem_at v p h A1" "seq_at elem_at vs qs h A2" "A1 \<inter> A2 = {}" "A = A1 \<union> A2"
    using seq_at_ConsE [OF Cons.prems(1)] .
  have "elem_at v p h' A1" using elem_frame [OF p(2)] Cons.prems(2) p(5) by simp
  moreover have "seq_at elem_at vs qs h' A2" using Cons.IH [OF p(3)] Cons.prems(2) p(5) by simp
  ultimately show ?case unfolding p(1,5) using p(4) by (rule seq_at_ConsI)
qed (simp add: seq_at_Nil)

lemma seq_dom: "seq_at elem_at vs ps h A \<Longrightarrow> A \<subseteq> dom h"
proof (induction vs arbitrary: ps A)
  case (Cons v vs)
  from Cons.prems show ?case
  proof (rule seq_at_ConsE)
    fix p qs A1 A2
    assume "elem_at v p h A1" "seq_at elem_at vs qs h A2" "A = A1 \<union> A2"
    then show ?thesis using elem_dom Cons.IH by (metis Un_least)
  qed
qed (simp add: seq_at_Nil)

lemma seq_unique: "seq_at elem_at vs ps h A \<Longrightarrow> seq_at elem_at vs' ps h A' \<Longrightarrow> vs' = vs \<and> A' = A"
proof (induction vs arbitrary: ps A vs' A')
  case Nil
  then show ?case by (cases vs') (auto simp: seq_at_Nil)
next
  case (Cons v vs)
  obtain p qs A1 A2 where a: "ps = p # qs" "elem_at v p h A1" "seq_at elem_at vs qs h A2" "A = A1 \<union> A2"
    using seq_at_ConsE [OF Cons.prems(1)] .
  obtain v' ws where w: "vs' = v' # ws" using Cons.prems(2) a(1) by (cases vs') auto
  obtain A3 A4 where b: "elem_at v' p h A3" "seq_at elem_at ws qs h A4" "A' = A3 \<union> A4"
    using Cons.prems(2) unfolding w a(1) by auto
  show ?case using elem_unique [OF a(2) b(1)] Cons.IH [OF a(3) b(2)] a(4) b(3) w by simp
qed

lemma build:
  assumes "fresh_alloc alloc" "finite (dom h)" "h arr = Some (PtrArray (map Some ps @ replicate (length vs) None))"
    "k = length ps" "h' = fold (turn alloc arr) (enumerate k vs) h"
  shows "\<exists>ps' A. seq_at elem_at vs ps' h' A \<and> grows {arr} h h' A \<and> h' arr = Some (PtrArray (map Some (ps @ ps')))"
  using assms(2-5)
proof (induction vs arbitrary: ps h k)
  case Nil
  then show ?case by (intro exI [of _ "[]"] exI [of _ "{}"]) (simp add: grows_refl)
next
  case (Cons v vs)
  define h1 where "h1 = turn alloc arr (k, v) h"
  obtain p A1 where p: "elem_at v p h1 A1" "grows {arr} h h1 A1"
      "h1 arr = Some (PtrArray (map Some (ps @ [p]) @ replicate (length vs) None))"
    using turn_law [OF assms(1) Cons.prems(1,2), where v = v and i = k] Cons.prems(3)
    by (auto simp: list_update_append h1_def)
  have "\<exists>ps' A. seq_at elem_at vs ps' h' A \<and> grows {arr} h1 h' A \<and> h' arr = Some (PtrArray (map Some ((ps @ [p]) @ ps')))"
  proof (rule Cons.IH)
    show "finite (dom h1)" using grows_finite [OF p(2) Cons.prems(1)] .
    show "h' = fold (turn alloc arr) (enumerate (Suc k) vs) h1" using Cons.prems(4) by (simp add: h1_def)
  qed (use p(3) Cons.prems(3) in simp_all)
  then obtain ps' A2 where q: "seq_at elem_at vs ps' h' A2" "grows {arr} h1 h' A2"
      "h' arr = Some (PtrArray (map Some ((ps @ [p]) @ ps')))"
    by blast
  have "arr \<notin> A1" using p(2) Cons.prems(2) by (auto simp: grows_def)
  then have "h' a = h1 a" if "a \<in> A1" for a using grows_keeps [OF p(2) q(2) that] that by auto
  then have "elem_at v p h' A1" by (rule elem_frame [OF p(1)])
  then have "seq_at elem_at (v # vs) (p # ps') h' (A1 \<union> A2)"
    using q(1) grows_disjoint [OF p(2) q(2)] by (rule seq_at_ConsI)
  moreover have "grows {arr} h h' (A1 \<union> A2)" using grows_trans [OF p(2) q(2)] by simp
  ultimately show ?case using q(3) by (intro exI [of _ "p # ps'"] exI [of _ "A1 \<union> A2"]) simp
qed

lemma unbuild:
  assumes "seq_at elem_at vs ps h A" "h arr = Some (PtrArray (map Some (qs @ ps)))" "arr \<notin> A"
  shows "res_fold (\<lambda>i h. res_bind (load_ptr arr i h) (\<lambda>q. free_elem q h)) [length qs..<length qs + length ps] h
    = Ok (h |` (- A))"
  using assms
proof (induction vs arbitrary: ps qs h A)
  case Nil
  then show ?case by (simp add: seq_at_Nil)
next
  case (Cons v vs)
  obtain p ps' A1 A2 where p: "ps = p # ps'" "elem_at v p h A1" "seq_at elem_at vs ps' h A2" "A1 \<inter> A2 = {}" "A = A1 \<union> A2"
    using seq_at_ConsE [OF Cons.prems(1)] .
  let ?h = "h |` (- A1)"
  have "?h a = h a" if "a \<in> A2" for a using p(4) that by (auto simp: restrict_map_def)
  then have "seq_at elem_at vs ps' ?h A2" by (rule seq_frame [OF p(3)])
  moreover have "?h arr = Some (PtrArray (map Some ((qs @ [p]) @ ps')))" using Cons.prems(2,3) p(1,5) by simp
  ultimately have "res_fold (\<lambda>i h. res_bind (load_ptr arr i h) (\<lambda>q. free_elem q h))
      [length (qs @ [p])..<length (qs @ [p]) + length ps'] ?h = Ok (?h |` (- A2))"
    using Cons.IH [of ps' ?h A2 "qs @ [p]"] Cons.prems(3) p(5) by simp
  moreover have "[length qs..<length qs + length ps] = length qs # [length (qs @ [p])..<length (qs @ [p]) + length ps']"
    using upt_conv_Cons [of "length qs" "length qs + length ps"] by (simp add: p(1))
  moreover have "load_ptr arr (length qs) h = Ok p" using Cons.prems(2) p(1) by (simp add: load_ptr_def nth_append)
  moreover have "free_elem p h = Ok ?h" by (rule elem_free [OF p(2)])
  moreover have "?h |` (- A2) = h |` (- A)" by (auto simp: p(5) restrict_map_def fun_eq_iff)
  ultimately show ?case by simp
qed

end

lemma grows_lookup: "grows X h h' A \<Longrightarrow> h a = Some b \<Longrightarrow> a \<notin> A \<and> (a \<notin> X \<longrightarrow> h' a = Some b)"
  unfolding grows_def by (metis DiffI disjoint_iff domI)

sublocale array_layout \<subseteq> owned_layout "arr_at elem_at hdr" enc free "\<lambda>vs. length vs < 2 ^ 31"
proof unfold_locales
  fix alloc h v p h'
  assume fresh: "fresh_alloc alloc" and fin: "finite (dom h)" and sm: "length v < 2 ^ 31" and e: "enc alloc v h = (p, h')"
  obtain h1 where 1: "new_block alloc (hdr 0 0) h = (p, h1)"
    using e unfolding enc_eq by (auto split: prod.splits simp: Let_def)
  obtain arr h2 where 2: "new_block alloc (PtrArray (replicate (length v) None)) h1 = (arr, h2)" by fastforce
  define h3 where "h3 = h2(p \<mapsto> hdr (to_i32 (int (length v))) arr)"
  have h': "h' = fold (turn alloc arr) (enumerate 0 v) h3"
    using e 1 2 unfolding enc_eq by (simp add: Let_def h3_def)
  note g1 = new_block_grows [OF fresh fin 1]
  note g2 = new_block_grows [OF fresh grows_finite [OF g1(1) fin] 2]
  have p: "p \<in> dom h2" "p \<noteq> arr" using g1 g2 by (auto simp: grows_def)
  have g3: "grows {p} h2 h3 {}" unfolding h3_def by (rule write_grows [OF p(1)])
  have g13: "grows {} h h3 {p, arr}"
    using grows_trans [OF grows_trans [OF g1(1) g2(1)] g3] by (simp add: insert_commute)
  have arr3: "h3 arr = Some (PtrArray (map Some [] @ replicate (length v) None))" using g2(2) p(2) by (simp add: h3_def)
  obtain ps A where b: "seq_at elem_at v ps h' A" "grows {arr} h3 h' A" "h' arr = Some (PtrArray (map Some ([] @ ps)))"
    using build [OF fresh grows_finite [OF g13 fin] arr3 _ h'] by auto
  have d: "{p, arr} \<inter> A = {}" using grows_disjoint [OF g13 b(2)] .
  have "h' p = h3 p" using grows_keeps [OF g13 b(2), of p] p(2) by simp
  then have "h' p = Some (hdr (int (length v)) arr)" using sm by (simp add: h3_def i32_ok_def)
  then have "arr_at elem_at hdr v p h' (insert p (insert arr A))"
    unfolding arr_at_def using b(1,3) d by auto
  moreover have "grows {} h h' ({p, arr} \<union> A)" using grows_trans [OF g13 b(2)] by simp
  ultimately show "\<exists>A. arr_at elem_at hdr v p h' A \<and> grows {} h h' A" by auto
next
  fix v p h A
  assume "arr_at elem_at hdr v p h A"
  then obtain arr ps B where a: "h p = Some (hdr (int (length v)) arr)" "h arr = Some (PtrArray (map Some ps))"
      "seq_at elem_at v ps h B" "p \<notin> B" "arr \<notin> B" "A = insert p (insert arr B)"
    unfolding arr_at_def by blast
  have "p \<noteq> arr" using a(1,2) hdr_not_array by (metis option.inject)
  let ?h = "h |` (- B)"
  have "res_fold (\<lambda>i h. res_bind (load_ptr arr i h) (\<lambda>q. free_elem q h)) [0..<nat (int (length v))] h = Ok ?h"
    using unbuild [OF a(3), of arr "[]"] a(2,5) seq_length [OF a(3)] by simp
  moreover have "delete_array arr ?h = Ok (?h(arr := None))" using a(2,5) by (simp add: delete_array_def)
  moreover have "delete_object p (?h(arr := None)) = Ok (?h(arr := None, p := None))"
    by (rule hdr_delete [of _ _ "int (length v)" arr]) (use a(1,4) \<open>p \<noteq> arr\<close> in simp)
  moreover have "?h(arr := None, p := None) = h |` (- A)"
    by (auto simp: a(6) restrict_map_def fun_eq_iff)
  ultimately show "free p h = Ok (h |` (- A))" using free_eq [of h p "int (length v)" arr] a(1) by simp
next
  fix v p h A h'
  assume "arr_at elem_at hdr v p h A" and same: "\<And>a. a \<in> A \<Longrightarrow> h' a = h a"
  then obtain arr ps B where a: "h p = Some (hdr (int (length v)) arr)" "h arr = Some (PtrArray (map Some ps))"
      "seq_at elem_at v ps h B" "p \<notin> B" "arr \<notin> B" "A = insert p (insert arr B)"
    unfolding arr_at_def by blast
  have "seq_at elem_at v ps h' B" using seq_frame [OF a(3)] same a(6) by simp
  moreover have "h' p = h p" "h' arr = h arr" using same a(6) by simp_all
  ultimately show "arr_at elem_at hdr v p h' A" unfolding arr_at_def using a by metis
next
  fix v p h A
  assume "arr_at elem_at hdr v p h A"
  then obtain arr ps B where "h p = Some (hdr (int (length v)) arr)" "h arr = Some (PtrArray (map Some ps))"
      "seq_at elem_at v ps h B" "A = insert p (insert arr B)"
    unfolding arr_at_def by blast
  then show "A \<subseteq> dom h \<and> p \<in> A" using seq_dom [of v ps h B] by auto
next
  fix v p h A v' A'
  assume l: "arr_at elem_at hdr v p h A" and r: "arr_at elem_at hdr v' p h A'"
  obtain arr ps B where a: "h p = Some (hdr (int (length v)) arr)" "h arr = Some (PtrArray (map Some ps))"
      "seq_at elem_at v ps h B" "A = insert p (insert arr B)"
    using l unfolding arr_at_def by blast
  obtain arr' ps' B' where b: "h p = Some (hdr (int (length v')) arr')" "h arr' = Some (PtrArray (map Some ps'))"
      "seq_at elem_at v' ps' h B'" "A' = insert p (insert arr' B')"
    using r unfolding arr_at_def by blast
  have "arr' = arr" using a(1) b(1) by (simp add: hdr_inj)
  moreover have "ps' = ps" using a(2) b(2) calculation by (simp add: inj_map_eq_map)
  ultimately show "v' = v \<and> A' = A" using seq_unique [OF a(3)] b(3,4) a(4) by blast
qed

section \<open>Strings, vectors and maps\<close>

definition string_at :: "string \<Rightarrow> nat \<Rightarrow> heap \<Rightarrow> nat set \<Rightarrow> bool" where
  "string_at s p h A \<longleftrightarrow> h p = Some (CharArray (s @ [CHR 0x00])) \<and> A = {p}"

definition pair_at :: "string \<times> int \<Rightarrow> nat \<Rightarrow> heap \<Rightarrow> nat set \<Rightarrow> bool" where
  "pair_at x q h A \<longleftrightarrow> (\<exists>p. h q = Some (NodeIDPair p (snd x)) \<and> string_at (fst x) p h {p} \<and> A = {q, p})"

abbreviation vec_at :: "string list \<Rightarrow> nat \<Rightarrow> heap \<Rightarrow> nat set \<Rightarrow> bool" where
  "vec_at \<equiv> arr_at string_at NodeIDVec"

abbreviation map_at :: "(string \<times> int) list \<Rightarrow> nat \<Rightarrow> heap \<Rightarrow> nat set \<Rightarrow> bool" where
  "map_at \<equiv> arr_at pair_at NodeIDMap"

lemma char_copy_eq: "char_copy s = s @ [CHR 0x00]"
  by (simp add: char_copy_def flip: replicate_append_same)

lemma string_free: "string_at s p h A \<Longrightarrow> delete_array p h = Ok (h |` (- A))"
  by (auto simp: string_at_def delete_array_def restrict_map_def fun_eq_iff)

interpretation st: owned_layout string_at encode_string delete_array "\<lambda>_. True"
proof unfold_locales
  fix alloc h v p h'
  assume "fresh_alloc alloc" "finite (dom h)" "encode_string alloc v h = (p, h')"
  then show "\<exists>A. string_at v p h' A \<and> grows {} h h' A"
    using new_block_grows [of alloc h "CharArray (char_copy v)" p h']
    by (auto simp: encode_string_def char_copy_eq string_at_def)
qed (rule string_free, assumption, auto simp: string_at_def)

interpretation vec: array_layout string_at vector_turn delete_array NodeIDVec encode_vector free_vector
proof unfold_locales
  fix alloc :: allocator and h :: heap and arr ps v i
  assume fresh: "fresh_alloc alloc" and fin: "finite (dom h)" and arr: "h arr = Some (PtrArray ps)"
  obtain p h1 where 1: "new_block alloc (CharArray (char_copy v)) h = (p, h1)" by fastforce
  note g = new_block_grows [OF fresh fin 1]
  have ne: "p \<noteq> arr" and arr1: "h1 arr = Some (PtrArray ps)" using grows_lookup [OF g(1) arr] by auto
  have t: "vector_turn alloc arr (i, v) h = store_ptr arr i p h1" by (simp add: vector_turn_def 1)
  note s = store_ptr_grows [of h1 arr ps i p, OF arr1]
  have "store_ptr arr i p h1 p = h1 p" using s(1) g ne by (auto simp: grows_def)
  then have "string_at v p (vector_turn alloc arr (i, v) h) {p}" using g(2) by (simp add: t string_at_def char_copy_eq)
  moreover have "grows {arr} h (store_ptr arr i p h1) ({p} \<union> {})"
    by (rule grows_trans [OF _ s(1)]) (use g(1) in \<open>auto simp: grows_def\<close>)
  ultimately show "\<exists>p A. string_at v p (vector_turn alloc arr (i, v) h) A \<and> grows {arr} h (vector_turn alloc arr (i, v) h) A \<and>
      vector_turn alloc arr (i, v) h arr = Some (PtrArray (ps[i := Some p]))"
    using s(2) by (auto simp: t)
qed (rule string_free, assumption, auto simp: string_at_def encode_vector_def free_vector_def delete_object_def)

interpretation mp: array_layout pair_at map_turn free_pair NodeIDMap encode_map free_map
proof unfold_locales
  fix alloc :: allocator and h :: heap and arr ps i and v :: "string \<times> int"
  assume fresh: "fresh_alloc alloc" and fin: "finite (dom h)" and arr: "h arr = Some (PtrArray ps)"
  obtain q h1 where 1: "new_block alloc (NodeIDPair 0 0) h = (q, h1)" by fastforce
  note g1 = new_block_grows [OF fresh fin 1]
  have arr1: "h1 arr = Some (PtrArray ps)" "q \<noteq> arr" using grows_lookup [OF g1(1) arr] by auto
  define h2 where "h2 = store_ptr arr i q h1"
  note g2 = store_ptr_grows [of h1 arr ps i q, OF arr1(1), folded h2_def]
  obtain p h3 where 3: "new_block alloc (CharArray (char_copy (fst v))) h2 = (p, h3)" by fastforce
  note g3 = new_block_grows [OF fresh grows_finite [OF g2(1) grows_finite [OF g1(1) fin]] 3]
  define h4 where "h4 = h3(q \<mapsto> NodeIDPair p (snd v))"
  have dom: "arr \<in> dom h" "q \<in> dom h2" using arr g1(1) g2(1) by (auto simp: grows_def)
  then have ne: "p \<noteq> arr" "p \<noteq> q" "q \<in> dom h3" using g1(1) g2(1) g3(1) by (auto simp: grows_def)
  have t: "map_turn alloc arr (i, v) h = h4" using 3 by (cases v) (simp add: map_turn_def 1 h4_def h2_def)
  have g4: "grows {q} h3 h4 {}" unfolding h4_def by (rule write_grows [OF ne(3)])
  have a: "grows {arr} h h1 {q}" using g1(1) by (auto simp: grows_def)
  have "grows {arr} h h4 ((({q} \<union> {}) \<union> {p}) \<union> {})"
    by (rule grows_trans [OF grows_trans [OF grows_trans [OF a g2(1)] g3(1)] g4]) auto
  then have "grows {arr} h h4 {q, p}" by (simp add: insert_commute)
  moreover have "pair_at v q h4 {q, p}" using g3(2) ne(2) by (auto simp: h4_def pair_at_def string_at_def char_copy_eq)
  moreover have "h4 arr = Some (PtrArray (ps[i := Some q]))"
    using grows_lookup [OF g3(1) g2(2)] arr1(2) by (simp add: h4_def)
  ultimately show "\<exists>p A. pair_at v p (map_turn alloc arr (i, v) h) A \<and> grows {arr} h (map_turn alloc arr (i, v) h) A \<and>
      map_turn alloc arr (i, v) h arr = Some (PtrArray (ps[i := Some p]))"
    unfolding t by blast
next
  fix v p h A
  assume "pair_at v p h A"
  then obtain q where a: "h p = Some (NodeIDPair q (snd v))" "string_at (fst v) q h {q}" "A = {p, q}"
    by (auto simp: pair_at_def)
  then have "delete_array q h = Ok (h |` (- {q}))" "p \<noteq> q" using string_free by (auto simp: string_at_def)
  moreover have "delete_object p (h |` (- {q})) = Ok (h |` (- A))"
    using a(1,3) \<open>p \<noteq> q\<close> by (auto simp: delete_object_def restrict_map_def fun_eq_iff)
  ultimately show "free_pair p h = Ok (h |` (- A))" using a(1) by (simp add: free_pair_def)
qed (auto simp: pair_at_def string_at_def encode_map_def free_map_def delete_object_def prod_eq_iff)

end
