(* ===== verification/Tcp_Channel.thy ===== *)
theory Tcp_Channel
  imports Net_Io Node_Ids
begin

text \<open>
  \<^verbatim>\<open>core/include/tcp_channel.h\<close> and \<^verbatim>\<open>core/src/tcp_channel.cc\<close>: the channel object behind the interface
  \<open>IChannel\<close>. It passes data on to the network and answers questions about the nodes of the task
  with C structures, which five global maps cache by the address of the channel and which the
  destructor frees. Each map is used under its own mutex, so concurrent calls are a sequence of
  the operations below.
\<close>

section \<open>State\<close>

text \<open>The five maps \<open>g_current_node_map\<close>, \<open>g_data_node_map\<close>, ... and the memory they point into.\<close>

datatype node_map = G_current | G_data | G_computation | G_result | G_connected

record globals =
  g_heap :: heap
  g_map :: "node_map \<Rightarrow> nat \<rightharpoonup> nat"

definition globals_empty :: globals where
  "globals_empty = \<lparr>g_heap = Map.empty, g_map = (\<lambda>_. Map.empty)\<rparr>"

record ('b, 'p) TcpChannel =
  tc_net_io :: "('b, 'p) BasicIO option"
  tc_config :: "ChannelConfig option"
  tc_self_node_info :: NodeInfo
  tc_connected_nodes :: "string list"

definition TcpChannel :: "('b, 'p) BasicIO \<Rightarrow> ChannelConfig \<Rightarrow> NodeInfo \<Rightarrow> ('b, 'p) TcpChannel" where
  "TcpChannel net_io config node_info =
     \<lparr>tc_net_io = Some net_io, tc_config = Some config, tc_self_node_info = node_info, tc_connected_nodes = []\<rparr>"

definition SetConnectedNodeIDs :: "string list \<Rightarrow> ('b, 'p) TcpChannel \<Rightarrow> ('b, 'p) TcpChannel" where
  "SetConnectedNodeIDs nodes ch = ch\<lparr>tc_connected_nodes := nodes\<rparr>"

section \<open>Data\<close>

text \<open>\<open>data\<close> is \<open>None\<close> for a null pointer.\<close>

definition tcp_Recv ::
    "(string \<Rightarrow> int \<Rightarrow> cell list \<Rightarrow> int \<Rightarrow> wake list \<Rightarrow> 'b ClientConnection \<Rightarrow> (int \<times> cell list \<times> 'b ClientConnection) res)
     \<Rightarrow> string \<Rightarrow> string \<Rightarrow> cell list option \<Rightarrow> int \<Rightarrow> int \<Rightarrow> wake list \<Rightarrow> ('b, 'p) TcpChannel
     \<Rightarrow> (int \<times> cell list option \<times> ('b, 'p) TcpChannel) res" where
  "tcp_Recv recv remote_node_id msg_id data len beg ws ch =
     (case tc_net_io ch of
        None \<Rightarrow> Ok (0, data, ch)
      | Some io \<Rightarrow>
          (case data of
             None \<Rightarrow> Ok (0, None, ch)
           | Some mem \<Rightarrow>
               res_bind (via_recv recv remote_node_id msg_id mem len beg ws io) (\<lambda>(ret, mem, io).
               Ok (ret, Some mem, ch\<lparr>tc_net_io := Some io\<rparr>))))"

definition tcp_Send ::
    "string \<Rightarrow> byte list \<Rightarrow> int \<Rightarrow> attempt list \<Rightarrow> ('b, 'p) TcpChannel \<Rightarrow> nat \<times> int res" where
  "tcp_Send remote_node_id data now as ch =
     (case tc_net_io ch of
        None \<Rightarrow> (0, Ok 0)
      | Some io \<Rightarrow> via_send remote_node_id data now as io)"

section \<open>Node identifiers\<close>

definition deref :: "'a option \<Rightarrow> 'a res" where
  "deref x = (case x of Some v \<Rightarrow> Ok v | None \<Rightarrow> Throw (Undefined ''null''))"

definition getDataNodeIDs :: "('b, 'p) TcpChannel \<Rightarrow> string list res" where
  "getDataNodeIDs ch = res_bind (deref (tc_config ch)) (\<lambda>cfg. Ok (data_nodes cfg))"

definition getComputationNodeIDs :: "('b, 'p) TcpChannel \<Rightarrow> (string \<times> int) list res" where
  "getComputationNodeIDs ch = res_bind (deref (tc_config ch)) (\<lambda>cfg. Ok (compute_nodes cfg))"

definition getResultNodeIDs :: "('b, 'p) TcpChannel \<Rightarrow> string list res" where
  "getResultNodeIDs ch = res_bind (deref (tc_config ch)) (\<lambda>cfg. Ok (result_nodes cfg))"

definition getCurrentNodeID :: "('b, 'p) TcpChannel \<Rightarrow> string res" where
  "getCurrentNodeID ch = Ok (ni_id (tc_self_node_info ch))"

definition getConnectedNodeIDs :: "('b, 'p) TcpChannel \<Rightarrow> string list res" where
  "getConnectedNodeIDs ch = Ok (tc_connected_nodes ch)"

text \<open>The body the five \<open>Get\<close> functions share: look the channel up, else encode and insert.\<close>

definition cached :: "node_map \<Rightarrow> 'v res \<Rightarrow> ('v \<Rightarrow> heap \<Rightarrow> nat \<times> heap) \<Rightarrow> nat \<Rightarrow> globals \<Rightarrow> (nat \<times> globals) res" where
  "cached s get encode this g =
     (case g_map g s this of
        Some p \<Rightarrow> Ok (p, g)
      | None \<Rightarrow>
          res_bind get (\<lambda>v.
          let (nodes, h) = encode v (g_heap g) in
          Ok (nodes, \<lparr>g_heap = h, g_map = (g_map g)(s := (g_map g s)(this \<mapsto> nodes))\<rparr>)))"

definition GetDataNodeIDs :: "allocator \<Rightarrow> nat \<Rightarrow> ('b, 'p) TcpChannel \<Rightarrow> globals \<Rightarrow> (nat \<times> globals) res" where
  "GetDataNodeIDs alloc this ch = cached G_data (getDataNodeIDs ch) (encode_vector alloc) this"

definition GetComputationNodeIDs :: "allocator \<Rightarrow> nat \<Rightarrow> ('b, 'p) TcpChannel \<Rightarrow> globals \<Rightarrow> (nat \<times> globals) res" where
  "GetComputationNodeIDs alloc this ch = cached G_computation (getComputationNodeIDs ch) (encode_map alloc) this"

definition GetResultNodeIDs :: "allocator \<Rightarrow> nat \<Rightarrow> ('b, 'p) TcpChannel \<Rightarrow> globals \<Rightarrow> (nat \<times> globals) res" where
  "GetResultNodeIDs alloc this ch = cached G_result (getResultNodeIDs ch) (encode_vector alloc) this"

definition GetCurrentNodeID :: "allocator \<Rightarrow> nat \<Rightarrow> ('b, 'p) TcpChannel \<Rightarrow> globals \<Rightarrow> (nat \<times> globals) res" where
  "GetCurrentNodeID alloc this ch = cached G_current (getCurrentNodeID ch) (encode_string alloc) this"

definition GetConnectedNodeIDs :: "allocator \<Rightarrow> nat \<Rightarrow> ('b, 'p) TcpChannel \<Rightarrow> globals \<Rightarrow> (nat \<times> globals) res" where
  "GetConnectedNodeIDs alloc this ch = cached G_connected (getConnectedNodeIDs ch) (encode_vector alloc) this"

text \<open>The body the five \<open>Destroy\<close> functions share: free and erase what the channel has in a map.\<close>

definition destroy :: "node_map \<Rightarrow> (nat \<Rightarrow> heap \<Rightarrow> heap res) \<Rightarrow> nat \<Rightarrow> globals \<Rightarrow> globals res" where
  "destroy s free this g =
     (case g_map g s this of
        None \<Rightarrow> Ok g
      | Some p \<Rightarrow>
          res_bind (free p (g_heap g)) (\<lambda>h.
          Ok \<lparr>g_heap = h, g_map = (g_map g)(s := (g_map g s)(this := None))\<rparr>))"

definition DestroyCurrentNode :: "nat \<Rightarrow> globals \<Rightarrow> globals res" where
  "DestroyCurrentNode = destroy G_current delete_array"

definition DestroyDataNodes :: "nat \<Rightarrow> globals \<Rightarrow> globals res" where
  "DestroyDataNodes = destroy G_data free_vector"

definition DestroyComputationNodes :: "nat \<Rightarrow> globals \<Rightarrow> globals res" where
  "DestroyComputationNodes = destroy G_computation free_map"

definition DestroyResultNodes :: "nat \<Rightarrow> globals \<Rightarrow> globals res" where
  "DestroyResultNodes = destroy G_result free_vector"

definition DestroyConnectedNodes :: "nat \<Rightarrow> globals \<Rightarrow> globals res" where
  "DestroyConnectedNodes = destroy G_connected free_vector"

definition delete_TcpChannel :: "nat \<Rightarrow> globals \<Rightarrow> globals res" where
  "delete_TcpChannel this g =
     res_bind (DestroyCurrentNode this g) (\<lambda>g.
     res_bind (DestroyDataNodes this g) (\<lambda>g.
     res_bind (DestroyComputationNodes this g) (\<lambda>g.
     res_bind (DestroyResultNodes this g) (\<lambda>g.
     DestroyConnectedNodes this g))))"

section \<open>Ownership\<close>

text \<open>The three kinds of structure as one, and which map holds which kind.\<close>

datatype node_ids = IdString string | IdVec "string list" | IdMap "(string \<times> int) list"

fun slot_at :: "node_map \<Rightarrow> node_ids \<Rightarrow> nat \<Rightarrow> heap \<Rightarrow> nat set \<Rightarrow> bool" where
  "slot_at s (IdString x) p h A = (s = G_current \<and> string_at x p h A)"
| "slot_at s (IdMap x) p h A = (s = G_computation \<and> map_at x p h A)"
| "slot_at s (IdVec x) p h A = (s \<in> {G_data, G_result, G_connected} \<and> vec_at x p h A)"

fun slot_enc :: "node_map \<Rightarrow> allocator \<Rightarrow> node_ids \<Rightarrow> heap \<Rightarrow> nat \<times> heap" where
  "slot_enc s alloc (IdString x) = encode_string alloc x"
| "slot_enc s alloc (IdMap x) = encode_map alloc x"
| "slot_enc s alloc (IdVec x) = encode_vector alloc x"

definition slot_free :: "node_map \<Rightarrow> nat \<Rightarrow> heap \<Rightarrow> heap res" where
  "slot_free s = (if s = G_current then delete_array else if s = G_computation then free_map else free_vector)"

fun slot_fits :: "node_map \<Rightarrow> node_ids \<Rightarrow> bool" where
  "slot_fits s (IdString x) = (s = G_current)"
| "slot_fits s (IdMap x) = (s = G_computation \<and> length x < 2 ^ 31)"
| "slot_fits s (IdVec x) = (s \<in> {G_data, G_result, G_connected} \<and> length x < 2 ^ 31)"

interpretation sl: owned_layout "slot_at s" "slot_enc s" "slot_free s" "slot_fits s" for s
proof unfold_locales
  fix alloc h v p h'
  assume "fresh_alloc alloc" "finite (dom h)" "slot_fits s v" "slot_enc s alloc v h = (p, h')"
  then show "\<exists>A. slot_at s v p h' A \<and> grows {} h h' A"
    using st.enc_law vec.enc_law mp.enc_law by (cases v) (simp_all del: One_nat_def)
next
  fix v p h A
  assume "slot_at s v p h A"
  then show "slot_free s p h = Ok (h |` (- A))"
    using st.free_law vec.free_law mp.free_law by (cases v) (auto simp: slot_free_def)
next
  fix v p h A h'
  assume "slot_at s v p h A" "\<And>a. a \<in> A \<Longrightarrow> h' a = h a"
  then show "slot_at s v p h' A"
    using st.at_frame [of _ p h A h'] vec.at_frame [of _ p h A h'] mp.at_frame [of _ p h A h'] by (cases v) simp_all
next
  fix v p h A
  assume "slot_at s v p h A"
  then show "A \<subseteq> dom h \<and> p \<in> A"
    using st.at_dom vec.at_dom mp.at_dom by (cases v) (simp; blast)+
next
  fix v p h A v' A'
  assume "slot_at s v p h A" "slot_at s v' p h A'"
  then show "v' = v \<and> A' = A"
    using st.at_unique [of _ p h A] vec.at_unique [of _ p h A] mp.at_unique [of _ p h A]
    by (cases v; cases v'; simp; blast)
qed

text \<open>
  The ownership invariant: every cached pointer has its own addresses, nobody shares any, and
  together they are all the memory in use.
\<close>

definition owns :: "(node_map \<Rightarrow> nat \<Rightarrow> nat set) \<Rightarrow> globals \<Rightarrow> bool" where
  "owns foot g \<longleftrightarrow> finite (dom (g_heap g)) \<and> (\<forall>a. a \<in> dom (g_heap g) \<longleftrightarrow> (\<exists>s ch. a \<in> foot s ch)) \<and>
     (\<forall>s ch. g_map g s ch = None \<longrightarrow> foot s ch = {}) \<and>
     (\<forall>s ch p. g_map g s ch = Some p \<longrightarrow> (\<exists>v. slot_at s v p (g_heap g) (foot s ch))) \<and>
     (\<forall>s ch s' ch'. (s, ch) \<noteq> (s', ch') \<longrightarrow> foot s ch \<inter> foot s' ch' = {})"

lemma owns_empty: "owns (\<lambda>_ _. {}) globals_empty"
  by (simp add: owns_def globals_empty_def)

lemma owns_at: "owns foot g \<Longrightarrow> g_map g s ch = Some p \<Longrightarrow> \<exists>v. slot_at s v p (g_heap g) (foot s ch)"
  unfolding owns_def by blast

lemma owns_none: "owns foot g \<Longrightarrow> g_map g s ch = None \<Longrightarrow> foot s ch = {}"
  unfolding owns_def by blast

lemma owns_disjoint: "owns foot g \<Longrightarrow> (s, ch) \<noteq> (s', ch') \<Longrightarrow> foot s ch \<inter> foot s' ch' = {}"
  unfolding owns_def by blast

lemma owns_dom: "owns foot g \<Longrightarrow> a \<in> dom (g_heap g) \<longleftrightarrow> (\<exists>s ch. a \<in> foot s ch)"
  unfolding owns_def by blast

lemma owns_finite: "owns foot g \<Longrightarrow> finite (dom (g_heap g))"
  unfolding owns_def by blast

lemma ownsI:
  assumes "finite (dom (g_heap g))" "\<And>a. a \<in> dom (g_heap g) \<longleftrightarrow> (\<exists>s ch. a \<in> foot s ch)"
    "\<And>s ch. g_map g s ch = None \<Longrightarrow> foot s ch = {}"
    "\<And>s ch p. g_map g s ch = Some p \<Longrightarrow> \<exists>v. slot_at s v p (g_heap g) (foot s ch)"
    "\<And>s ch s' ch'. (s, ch) \<noteq> (s', ch') \<Longrightarrow> foot s ch \<inter> foot s' ch' = {}"
  shows "owns foot g"
  unfolding owns_def using assms by blast

text \<open>A structure that is built and cached, and one that is freed and erased.\<close>

definition put_slot :: "node_map \<Rightarrow> nat \<Rightarrow> nat option \<Rightarrow> heap \<Rightarrow> globals \<Rightarrow> globals" where
  "put_slot s ch x h g = \<lparr>g_heap = h, g_map = (g_map g)(s := (g_map g s)(ch := x))\<rparr>"

lemma put_slot_simps [simp]:
  "g_heap (put_slot s ch x h g) = h"
  "g_map (put_slot s ch x h g) s' ch' = (if s' = s \<and> ch' = ch then x else g_map g s' ch')"
  by (simp_all add: put_slot_def)

lemma owns_put:
  assumes "owns foot g" "g_map g s ch = None" "grows {} (g_heap g) h A" "slot_at s v p h A"
  shows "owns (foot(s := (foot s)(ch := A))) (put_slot s ch (Some p) h g)"
proof (rule ownsI)
  let ?foot = "foot(s := (foot s)(ch := A))"
  note d = owns_dom [OF assms(1)]
  have e: "foot s ch = {}" by (rule owns_none [OF assms(1,2)])
  have gd: "A \<inter> dom (g_heap g) = {}" "dom h = dom (g_heap g) \<union> A" using assms(3) unfolding grows_def by blast+
  have fr: "A \<inter> foot s' ch' = {}" for s' ch' using gd(1) d by blast
  show "finite (dom (g_heap (put_slot s ch (Some p) h g)))"
    using grows_finite [OF assms(3) owns_finite [OF assms(1)]] by simp
  have "(\<exists>s' ch'. a \<in> ?foot s' ch') \<longleftrightarrow> a \<in> A \<or> (\<exists>s' ch'. a \<in> foot s' ch')" for a
    using e by (metis empty_iff fun_upd_apply)
  then show "a \<in> dom (g_heap (put_slot s ch (Some p) h g)) \<longleftrightarrow> (\<exists>s ch. a \<in> ?foot s ch)" for a
    unfolding put_slot_simps gd(2) using d [of a] by blast
  fix s' ch'
  show "?foot s' ch' = {}" if "g_map (put_slot s ch (Some p) h g) s' ch' = None"
    using that owns_none [OF assms(1)] by (auto split: if_splits)
  show "\<exists>v. slot_at s' v q (g_heap (put_slot s ch (Some p) h g)) (?foot s' ch')"
    if m: "g_map (put_slot s ch (Some p) h g) s' ch' = Some q" for q
  proof (cases "s' = s \<and> ch' = ch")
    case True
    then show ?thesis using m assms(4) by auto
  next
    case False
    then have "g_map g s' ch' = Some q" using m by (simp split: if_splits)
    then obtain w where w: "slot_at s' w q (g_heap g) (foot s' ch')" using owns_at [OF assms(1)] by blast
    have "h a = g_heap g a" if "a \<in> foot s' ch'" for a
      using that d [of a] assms(3) unfolding grows_def by blast
    then have "slot_at s' w q h (foot s' ch')" by (rule sl.at_frame [OF w])
    then show ?thesis using False by auto
  qed
  show "?foot s' ch' \<inter> ?foot s'' ch'' = {}" if "(s', ch') \<noteq> (s'', ch'')" for s'' ch''
    using that owns_disjoint [OF assms(1) that] fr by (auto split: if_splits)
qed

lemma owns_erase:
  assumes "owns foot g" "g_map g s ch = Some p"
  shows "\<exists>h. slot_free s p (g_heap g) = Ok h \<and> owns (foot(s := (foot s)(ch := {}))) (put_slot s ch None h g)"
proof -
  let ?foot = "foot(s := (foot s)(ch := {}))"
  let ?h = "g_heap g |` (- foot s ch)"
  obtain v where v: "slot_at s v p (g_heap g) (foot s ch)" using owns_at [OF assms] by blast
  note d = owns_dom [OF assms(1)]
  have dj: "foot s' ch' \<inter> foot s ch = {}" if "\<not> (s' = s \<and> ch' = ch)" for s' ch'
    using owns_disjoint [OF assms(1), of s' ch' s ch] that by blast
  have "owns ?foot (put_slot s ch None ?h g)"
  proof (rule ownsI)
    show "finite (dom (g_heap (put_slot s ch None ?h g)))" using owns_finite [OF assms(1)] by simp
    have "(\<exists>s' ch'. a \<in> ?foot s' ch') \<longleftrightarrow> a \<notin> foot s ch \<and> (\<exists>s' ch'. a \<in> foot s' ch')" for a
      using dj by (metis disjoint_iff empty_iff fun_upd_apply)
    then show "a \<in> dom (g_heap (put_slot s ch None ?h g)) \<longleftrightarrow> (\<exists>s ch. a \<in> ?foot s ch)" for a
      using d [of a] by auto
    fix s' ch'
    show "?foot s' ch' = {}" if "g_map (put_slot s ch None ?h g) s' ch' = None"
      using that owns_none [OF assms(1)] by (auto split: if_splits)
    show "\<exists>v. slot_at s' v q (g_heap (put_slot s ch None ?h g)) (?foot s' ch')"
      if m: "g_map (put_slot s ch None ?h g) s' ch' = Some q" for q
    proof -
      have ne: "\<not> (s' = s \<and> ch' = ch)" and "g_map g s' ch' = Some q" using m by (auto split: if_splits)
      then obtain w where w: "slot_at s' w q (g_heap g) (foot s' ch')" using owns_at [OF assms(1)] by blast
      have "?h a = g_heap g a" if "a \<in> foot s' ch'" for a using that dj [OF ne] by (auto simp: restrict_map_def)
      then have "slot_at s' w q ?h (foot s' ch')" by (rule sl.at_frame [OF w])
      then show ?thesis using ne by auto
    qed
    show "?foot s' ch' \<inter> ?foot s'' ch'' = {}" if "(s', ch') \<noteq> (s'', ch'')" for s'' ch''
      using owns_disjoint [OF assms(1) that] by (auto split: if_splits)
  qed
  then show ?thesis using sl.free_law [OF v] by blast
qed

section \<open>Operations in any order\<close>

text \<open>What a channel answers for each map, and the operations on any number of channels.\<close>

definition slot_value :: "node_map \<Rightarrow> ('b, 'p) TcpChannel \<Rightarrow> node_ids res" where
  "slot_value s ch =
     (case s of
        G_current \<Rightarrow> res_bind (getCurrentNodeID ch) (\<lambda>x. Ok (IdString x))
      | G_data \<Rightarrow> res_bind (getDataNodeIDs ch) (\<lambda>x. Ok (IdVec x))
      | G_computation \<Rightarrow> res_bind (getComputationNodeIDs ch) (\<lambda>x. Ok (IdMap x))
      | G_result \<Rightarrow> res_bind (getResultNodeIDs ch) (\<lambda>x. Ok (IdVec x))
      | G_connected \<Rightarrow> res_bind (getConnectedNodeIDs ch) (\<lambda>x. Ok (IdVec x)))"

definition tcp_Get :: "node_map \<Rightarrow> allocator \<Rightarrow> nat \<Rightarrow> ('b, 'p) TcpChannel \<Rightarrow> globals \<Rightarrow> (nat \<times> globals) res" where
  "tcp_Get s =
     (case s of
        G_current \<Rightarrow> GetCurrentNodeID
      | G_data \<Rightarrow> GetDataNodeIDs
      | G_computation \<Rightarrow> GetComputationNodeIDs
      | G_result \<Rightarrow> GetResultNodeIDs
      | G_connected \<Rightarrow> GetConnectedNodeIDs)"

datatype tcp_op = Get node_map nat | Delete nat

definition tcp_exec :: "allocator \<Rightarrow> (nat \<Rightarrow> ('b, 'p) TcpChannel) \<Rightarrow> tcp_op \<Rightarrow> globals \<Rightarrow> globals res" where
  "tcp_exec alloc chans op g =
     (case op of
        Get s this \<Rightarrow> res_bind (tcp_Get s alloc this (chans this) g) (\<lambda>(_, g). Ok g)
      | Delete this \<Rightarrow> delete_TcpChannel this g)"

text \<open>A channel with a configuration, and lists an \<open>int\<close> can count.\<close>

definition chan_ok :: "('b, 'p) TcpChannel \<Rightarrow> bool" where
  "chan_ok ch \<longleftrightarrow> (\<forall>s. \<exists>v. slot_value s ch = Ok v \<and> slot_fits s v)"

lemma tcp_Get_alt:
  "tcp_Get s alloc this ch g =
     (case g_map g s this of
        Some p \<Rightarrow> Ok (p, g)
      | None \<Rightarrow> res_bind (slot_value s ch) (\<lambda>v.
          let (p, h) = slot_enc s alloc v (g_heap g) in Ok (p, put_slot s this (Some p) h g)))"
  by (cases s)
    (simp_all add: tcp_Get_def slot_value_def GetDataNodeIDs_def GetComputationNodeIDs_def GetResultNodeIDs_def
      GetCurrentNodeID_def GetConnectedNodeIDs_def cached_def put_slot_def res_bind_assoc split: option.split)

lemma destroy_owns:
  assumes "owns foot g"
  shows "\<exists>g'. destroy s (slot_free s) this g = Ok g' \<and> owns (foot(s := (foot s)(this := {}))) g' \<and>
    (\<forall>s' ch. g_map g' s' ch = (if s' = s \<and> ch = this then None else g_map g s' ch))"
proof (cases "g_map g s this")
  case None
  have "foot(s := (foot s)(this := {})) = foot" using owns_none [OF assms None] by (auto simp: fun_eq_iff)
  then show ?thesis using None assms by (auto simp: destroy_def)
next
  case (Some p)
  obtain h where "slot_free s p (g_heap g) = Ok h" "owns (foot(s := (foot s)(this := {}))) (put_slot s this None h g)"
    using owns_erase [OF assms Some] by blast
  then show ?thesis using Some by (simp add: destroy_def put_slot_def)
qed

lemma delete_owns:
  assumes "owns foot g"
  shows "\<exists>g'. delete_TcpChannel this g = Ok g' \<and> owns (\<lambda>s. (foot s)(this := {})) g' \<and>
    (\<forall>s ch. g_map g' s ch = (if ch = this then None else g_map g s ch))"
proof -
  obtain g1 where 1: "destroy G_current (slot_free G_current) this g = Ok g1" "owns (foot(G_current := (foot G_current)(this := {}))) g1"
      "\<forall>s' ch. g_map g1 s' ch = (if s' = G_current \<and> ch = this then None else g_map g s' ch)"
    using destroy_owns [OF assms, of G_current this] by blast
  obtain g2 where 2: "destroy G_data (slot_free G_data) this g1 = Ok g2"
      "owns (foot(G_current := (foot G_current)(this := {}), G_data := (foot G_data)(this := {}))) g2"
      "\<forall>s' ch. g_map g2 s' ch = (if s' = G_data \<and> ch = this then None else g_map g1 s' ch)"
    using destroy_owns [OF 1(2), of G_data this] by auto
  obtain g3 where 3: "destroy G_computation (slot_free G_computation) this g2 = Ok g3"
      "owns (foot(G_current := (foot G_current)(this := {}), G_data := (foot G_data)(this := {}),
        G_computation := (foot G_computation)(this := {}))) g3"
      "\<forall>s' ch. g_map g3 s' ch = (if s' = G_computation \<and> ch = this then None else g_map g2 s' ch)"
    using destroy_owns [OF 2(2), of G_computation this] by auto
  obtain g4 where 4: "destroy G_result (slot_free G_result) this g3 = Ok g4"
      "owns (foot(G_current := (foot G_current)(this := {}), G_data := (foot G_data)(this := {}),
        G_computation := (foot G_computation)(this := {}), G_result := (foot G_result)(this := {}))) g4"
      "\<forall>s' ch. g_map g4 s' ch = (if s' = G_result \<and> ch = this then None else g_map g3 s' ch)"
    using destroy_owns [OF 3(2), of G_result this] by auto
  obtain g5 where 5: "destroy G_connected (slot_free G_connected) this g4 = Ok g5"
      "owns (foot(G_current := (foot G_current)(this := {}), G_data := (foot G_data)(this := {}),
        G_computation := (foot G_computation)(this := {}), G_result := (foot G_result)(this := {}),
        G_connected := (foot G_connected)(this := {}))) g5"
      "\<forall>s' ch. g_map g5 s' ch = (if s' = G_connected \<and> ch = this then None else g_map g4 s' ch)"
    using destroy_owns [OF 4(2), of G_connected this] by auto
  have "delete_TcpChannel this g = Ok g5"
    using 1(1) 2(1) 3(1) 4(1) 5(1)
    by (simp add: delete_TcpChannel_def DestroyCurrentNode_def DestroyDataNodes_def DestroyComputationNodes_def
        DestroyResultNodes_def DestroyConnectedNodes_def slot_free_def)
  moreover have "foot(G_current := (foot G_current)(this := {}), G_data := (foot G_data)(this := {}),
        G_computation := (foot G_computation)(this := {}), G_result := (foot G_result)(this := {}),
        G_connected := (foot G_connected)(this := {})) = (\<lambda>s. (foot s)(this := {}))"
    by (rule ext) (case_tac s; simp)
  moreover have "g_map g5 s ch = (if ch = this then None else g_map g s ch)" for s ch
    by (cases s) (simp_all add: 1(3) 2(3) 3(3) 4(3) 5(3))
  ultimately show ?thesis using 5(2) by auto
qed

lemma destroy_keeps:
  assumes "owns foot g" "destroy s (slot_free s) this g = Ok g'" "(s', ch) \<noteq> (s, this)" "a \<in> foot s' ch"
  shows "g_heap g' a = g_heap g a"
proof (cases "g_map g s this")
  case (Some p)
  obtain v where "slot_at s v p (g_heap g) (foot s this)" using owns_at [OF assms(1) Some] by blast
  then have "g_heap g' = g_heap g |` (- foot s this)"
    using sl.free_law assms(2) Some by (auto simp: destroy_def)
  moreover have "a \<notin> foot s this" using owns_disjoint [OF assms(1,3)] assms(4) by blast
  ultimately show ?thesis by simp
qed (use assms(2) in \<open>simp add: destroy_def\<close>)

lemma delete_keeps:
  assumes "owns foot g" "delete_TcpChannel this g = Ok g'" "this \<noteq> ch" "a \<in> foot s ch"
  shows "g_heap g' a = g_heap g a"
proof -
  have step: "\<exists>foot'. owns foot' g2 \<and> a \<in> foot' s ch \<and> g_heap g2 a = g_heap g1 a"
    if "owns foot1 g1" "a \<in> foot1 s ch" "destroy s' (slot_free s') this g1 = Ok g2" for foot1 g1 g2 s'
  proof -
    have "owns (foot1(s' := (foot1 s')(this := {}))) g2" using destroy_owns [OF that(1), of s' this] that(3) by auto
    moreover have "a \<in> (foot1(s' := (foot1 s')(this := {}))) s ch" using that(2) assms(3) by auto
    ultimately show ?thesis using destroy_keeps [OF that(1,3) _ that(2)] assms(3) by blast
  qed
  obtain g1 g2 g3 g4 where d: "destroy G_current (slot_free G_current) this g = Ok g1"
      "destroy G_data (slot_free G_data) this g1 = Ok g2" "destroy G_computation (slot_free G_computation) this g2 = Ok g3"
      "destroy G_result (slot_free G_result) this g3 = Ok g4" "destroy G_connected (slot_free G_connected) this g4 = Ok g'"
    using assms(2) by (auto simp: delete_TcpChannel_def DestroyCurrentNode_def DestroyDataNodes_def DestroyComputationNodes_def
        DestroyResultNodes_def DestroyConnectedNodes_def slot_free_def res_bind_Ok_iff)
  obtain f1 where 1: "owns f1 g1" "a \<in> f1 s ch" "g_heap g1 a = g_heap g a" using step [OF assms(1,4) d(1)] by blast
  obtain f2 where 2: "owns f2 g2" "a \<in> f2 s ch" "g_heap g2 a = g_heap g1 a" using step [OF 1(1,2) d(2)] by blast
  obtain f3 where 3: "owns f3 g3" "a \<in> f3 s ch" "g_heap g3 a = g_heap g2 a" using step [OF 2(1,2) d(3)] by blast
  obtain f4 where 4: "owns f4 g4" "a \<in> f4 s ch" "g_heap g4 a = g_heap g3 a" using step [OF 3(1,2) d(4)] by blast
  show ?thesis using step [OF 4(1,2) d(5)] 1(3) 2(3) 3(3) 4(3) by auto
qed

lemma get_owns:
  assumes "owns foot g" "fresh_alloc alloc" "chan_ok ch"
  shows "\<exists>p g' foot' v. tcp_Get s alloc this ch g = Ok (p, g') \<and> owns foot' g' \<and> g_map g' s this = Some p \<and>
    slot_at s v p (g_heap g') (foot' s this) \<and> (g_map g s this = None \<longrightarrow> slot_value s ch = Ok v) \<and>
    (\<forall>s' ch'. (s', ch') \<noteq> (s, this) \<longrightarrow> g_map g' s' ch' = g_map g s' ch') \<and>
    (\<forall>a \<in> dom (g_heap g). g_heap g' a = g_heap g a)"
proof (cases "g_map g s this")
  case (Some p)
  obtain v where "slot_at s v p (g_heap g) (foot s this)" using owns_at [OF assms(1) Some] by blast
  then show ?thesis using Some assms(1) by (intro exI [of _ p] exI [of _ g] exI [of _ foot] exI [of _ v]) (simp add: tcp_Get_alt)
next
  case None
  obtain v where v: "slot_value s ch = Ok v" "slot_fits s v" using assms(3) by (auto simp: chan_ok_def)
  obtain p h where e: "slot_enc s alloc v (g_heap g) = (p, h)" by fastforce
  obtain A where A: "slot_at s v p h A" "grows {} (g_heap g) h A"
    using sl.enc_law [OF assms(2) owns_finite [OF assms(1)] v(2) e] by blast
  let ?g = "put_slot s this (Some p) h g"
  have "tcp_Get s alloc this ch g = Ok (p, ?g)" using None v(1) e by (simp add: tcp_Get_alt)
  moreover have "owns (foot(s := (foot s)(this := A))) ?g" by (rule owns_put [OF assms(1) None A(2,1)])
  moreover have "\<forall>a \<in> dom (g_heap g). h a = g_heap g a" using A(2) unfolding grows_def by blast
  ultimately show ?thesis
    using A(1) v(1) by (intro exI [of _ p] exI [of _ ?g] exI [of _ "foot(s := (foot s)(this := A))"] exI [of _ v]) auto
qed

lemma exec_owns:
  assumes "owns foot g" "fresh_alloc alloc" "\<forall>c. chan_ok (chans c)"
  shows "\<exists>g' foot'. tcp_exec alloc chans op g = Ok g' \<and> owns foot' g'"
proof (cases op)
  case (Get s this)
  then show ?thesis using get_owns [OF assms(1,2) spec [OF assms(3), of this], of s this] by (auto simp: tcp_exec_def)
next
  case (Delete this)
  then show ?thesis using delete_owns [OF assms(1), of this] by (auto simp: tcp_exec_def)
qed

lemma execs_own:
  assumes "owns foot g" "fresh_alloc alloc" "\<forall>c. chan_ok (chans c)"
  shows "\<exists>g' foot'. res_fold (tcp_exec alloc chans) ops g = Ok g' \<and> owns foot' g'"
proof -
  have "\<exists>g'. res_fold (tcp_exec alloc chans) ops g = Ok g' \<and> (\<exists>foot'. owns foot' g')"
    by (rule res_fold_total) (use assms exec_owns in \<open>blast+\<close>)
  then show ?thesis by blast
qed

lemma deletes_own:
  assumes "owns foot g"
  shows "\<exists>g' foot'. res_fold delete_TcpChannel cs g = Ok g' \<and> owns foot' g' \<and>
    (\<forall>s ch. g_map g' s ch = (if ch \<in> set cs then None else g_map g s ch))"
  using assms
proof (induction cs arbitrary: foot g)
  case Nil
  then show ?case by auto
next
  case (Cons c cs)
  obtain g1 where 1: "delete_TcpChannel c g = Ok g1" "owns (\<lambda>s. (foot s)(c := {})) g1"
      "\<forall>s ch. g_map g1 s ch = (if ch = c then None else g_map g s ch)"
    using delete_owns [OF Cons.prems, of c] by blast
  obtain g2 foot2 where 2: "res_fold delete_TcpChannel cs g1 = Ok g2" "owns foot2 g2"
      "\<forall>s ch. g_map g2 s ch = (if ch \<in> set cs then None else g_map g1 s ch)"
    using Cons.IH [OF 1(2)] by blast
  then show ?case using 1 by auto
qed

text \<open>
  C34. Memory safety of the answers. Whatever sequence of questions and destructions is applied
  to any number of channels, with any allocator, no step frees a block twice, frees it the wrong
  way or follows a dangling pointer; and when afterwards every channel that still has answers is
  destroyed, all the memory has been given back.
\<close>

theorem channel_memory_safe:
  assumes "fresh_alloc alloc" "\<forall>c. chan_ok (chans c)"
  shows "\<exists>g. res_fold (tcp_exec alloc chans) ops globals_empty = Ok g \<and>
    (\<forall>cs. (\<forall>s ch. g_map g s ch \<noteq> None \<longrightarrow> ch \<in> set cs) \<longrightarrow>
      (\<exists>g'. res_fold delete_TcpChannel cs g = Ok g' \<and> g_heap g' = Map.empty))"
proof -
  obtain g foot where g: "res_fold (tcp_exec alloc chans) ops globals_empty = Ok g" "owns foot g"
    using execs_own [OF owns_empty assms] by blast
  have "\<exists>g'. res_fold delete_TcpChannel cs g = Ok g' \<and> g_heap g' = Map.empty"
    if cs: "\<forall>s ch. g_map g s ch \<noteq> None \<longrightarrow> ch \<in> set cs" for cs
  proof -
    obtain g' foot' where g': "res_fold delete_TcpChannel cs g = Ok g'" "owns foot' g'"
        "\<forall>s ch. g_map g' s ch = (if ch \<in> set cs then None else g_map g s ch)"
      using deletes_own [OF g(2)] by blast
    have "g_map g' s ch = None" for s ch using g'(3) cs by metis
    then have "foot' s ch = {}" for s ch by (rule owns_none [OF g'(2)])
    then have "dom (g_heap g') = {}" using owns_dom [OF g'(2)] by blast
    then show ?thesis using g'(1) by auto
  qed
  then show ?thesis using g(1) by blast
qed

text \<open>
  C35. The answers are right and stay valid. After any history, asking channel \<open>c\<close> for the
  first time gives a pointer to a structure that encodes exactly the identifiers the channel has;
  asking again, after any further questions to any channels and deletions of others, gives the
  same pointer, and the structure is still there, unchanged.
\<close>

theorem channel_answers_stable:
  assumes "fresh_alloc alloc" "\<forall>c. chan_ok (chans c)"
    "res_fold (tcp_exec alloc chans) ops globals_empty = Ok g" "g_map g s c = None" "Delete c \<notin> set ops'"
  shows "\<exists>p g1 v A g2. tcp_Get s alloc c (chans c) g = Ok (p, g1) \<and> slot_value s (chans c) = Ok v \<and> slot_at s v p (g_heap g1) A \<and>
    res_fold (tcp_exec alloc chans) ops' g1 = Ok g2 \<and> tcp_Get s alloc c (chans c) g2 = Ok (p, g2) \<and> slot_at s v p (g_heap g2) A"
proof -
  obtain foot where foot: "owns foot g" using execs_own [OF owns_empty assms(1,2), of ops] assms(3) by auto
  obtain p g1 foot1 v where 1: "tcp_Get s alloc c (chans c) g = Ok (p, g1)" "owns foot1 g1" "g_map g1 s c = Some p"
      "slot_at s v p (g_heap g1) (foot1 s c)" "slot_value s (chans c) = Ok v"
    using get_owns [OF foot assms(1) spec [OF assms(2), of c], of s c] assms(4) by blast
  define Q where "Q g2 \<longleftrightarrow> (\<exists>foot2. owns foot2 g2) \<and> g_map g2 s c = Some p \<and> slot_at s v p (g_heap g2) (foot1 s c)" for g2
  have "\<exists>g2. res_fold (tcp_exec alloc chans) ops' g1 = Ok g2 \<and> Q g2"
  proof (rule res_fold_total)
    show "Q g1" using 1(2-4) by (auto simp: Q_def)
  next
    fix op g2
    assume op: "op \<in> set ops'" and "Q g2"
    then obtain foot2 where f: "owns foot2 g2" "g_map g2 s c = Some p" "slot_at s v p (g_heap g2) (foot1 s c)"
      by (auto simp: Q_def)
    obtain w where "slot_at s w p (g_heap g2) (foot2 s c)" using owns_at [OF f(1,2)] by blast
    then have A: "foot2 s c = foot1 s c" using sl.at_unique [OF f(3)] by blast
    show "\<exists>g3. tcp_exec alloc chans op g2 = Ok g3 \<and> Q g3"
    proof (cases op)
      case (Get s' c')
      obtain q g3 foot3 where 3: "tcp_Get s' alloc c' (chans c') g2 = Ok (q, g3)" "owns foot3 g3" "g_map g3 s' c' = Some q"
          "\<forall>s'' ch'. (s'', ch') \<noteq> (s', c') \<longrightarrow> g_map g3 s'' ch' = g_map g2 s'' ch'"
          "\<forall>a \<in> dom (g_heap g2). g_heap g3 a = g_heap g2 a"
        using get_owns [OF f(1) assms(1) spec [OF assms(2), of c'], of s' c'] by blast
      have "slot_at s v p (g_heap g3) (foot1 s c)"
        by (rule sl.at_frame [OF f(3)]) (use 3(5) sl.at_dom [OF f(3)] in blast)
      moreover have "g_map g3 s c = Some p"
      proof (cases "(s, c) = (s', c')")
        case True
        then have "tcp_Get s alloc c (chans c) g2 = Ok (p, g2)" using f(2) by (simp add: tcp_Get_alt)
        then show ?thesis using 3(1) True f(2) by simp
      qed (use 3(4) f(2) in auto)
      ultimately show ?thesis using Get 3(1,2) by (auto simp: tcp_exec_def Q_def)
    next
      case (Delete c')
      then have "c' \<noteq> c" using op assms(5) by auto
      obtain g3 where 3: "delete_TcpChannel c' g2 = Ok g3" "owns (\<lambda>s. (foot2 s)(c' := {})) g3"
          "\<forall>s ch. g_map g3 s ch = (if ch = c' then None else g_map g2 s ch)"
        using delete_owns [OF f(1), of c'] by blast
      have m: "g_map g3 s c = Some p" using 3(3) f(2) \<open>c' \<noteq> c\<close> by simp
      have "g_heap g3 a = g_heap g2 a" if "a \<in> foot2 s c" for a
        using delete_keeps [OF f(1) 3(1) \<open>c' \<noteq> c\<close> that] .
      then have "slot_at s v p (g_heap g3) (foot1 s c)" using sl.at_frame [OF f(3)] A by simp
      then show ?thesis using Delete 3(1,2) m by (auto simp: tcp_exec_def Q_def)
    qed
  qed
  then obtain g2 where "res_fold (tcp_exec alloc chans) ops' g1 = Ok g2" "Q g2" by blast
  moreover then have "tcp_Get s alloc c (chans c) g2 = Ok (p, g2)" by (simp add: tcp_Get_alt Q_def)
  ultimately show ?thesis using 1(1,4,5) unfolding Q_def by blast
qed

text \<open>Example: a task of three nodes, and an allocator that takes the first free address.\<close>

definition first_free :: allocator where
  "first_free h = (LEAST a. a \<notin> dom h)"

lemma first_free_fresh: "fresh_alloc first_free"
proof -
  have "first_free h \<notin> dom h" if "finite (dom h)" for h
    unfolding first_free_def by (rule LeastI_ex) (use ex_new_if_finite [OF infinite_UNIV_nat that] in blast)
  then show ?thesis by (simp add: fresh_alloc_def)
qed

definition example_chan :: "(byte list list, unit) TcpChannel" where
  "example_chan = SetConnectedNodeIDs [''p0''] (TcpChannel (BasicIO example_info [] [''p0''])
     (ChannelConfig_new\<lparr>data_nodes := [''p0''], compute_nodes := [(''p1'', 0)], result_nodes := [''p2'', ''p3'']\<rparr>) example_info)"

lemma example_chan_value:
  "slot_value s example_chan = Ok
     (case s of
        G_current \<Rightarrow> IdString (ni_id example_info)
      | G_data \<Rightarrow> IdVec [''p0'']
      | G_computation \<Rightarrow> IdMap [(''p1'', 0)]
      | G_result \<Rightarrow> IdVec [''p2'', ''p3'']
      | G_connected \<Rightarrow> IdVec [''p0''])"
  by (cases s) (simp_all add: slot_value_def example_chan_def SetConnectedNodeIDs_def TcpChannel_def deref_def
      getCurrentNodeID_def getDataNodeIDs_def getComputationNodeIDs_def getResultNodeIDs_def getConnectedNodeIDs_def)

lemma example_chan_ok: "chan_ok example_chan"
  by (auto simp: chan_ok_def example_chan_value split: node_map.split)

theorem channel_memory_safe_witness:
  "\<exists>g. res_fold (tcp_exec first_free (\<lambda>_. example_chan))
      [Get G_data 1, Get G_computation 1, Get G_data 2, Delete 1, Get G_data 1] globals_empty = Ok g \<and>
    (\<forall>cs. (\<forall>s ch. g_map g s ch \<noteq> None \<longrightarrow> ch \<in> set cs) \<longrightarrow>
      (\<exists>g'. res_fold delete_TcpChannel cs g = Ok g' \<and> g_heap g' = Map.empty))"
  by (rule channel_memory_safe) (simp_all add: first_free_fresh example_chan_ok)

theorem channel_answers_stable_witness:
  "\<exists>p g1 A g2. tcp_Get G_result first_free 1 example_chan globals_empty = Ok (p, g1) \<and>
    slot_at G_result (IdVec [''p2'', ''p3'']) p (g_heap g1) A \<and>
    res_fold (tcp_exec first_free (\<lambda>_. example_chan)) [Get G_data 1, Get G_result 2, Delete 2] g1 = Ok g2 \<and>
    tcp_Get G_result first_free 1 example_chan g2 = Ok (p, g2) \<and>
    slot_at G_result (IdVec [''p2'', ''p3'']) p (g_heap g2) A"
  using channel_answers_stable [of first_free "\<lambda>_. example_chan" "[]" globals_empty G_result 1
      "[Get G_data 1, Get G_result 2, Delete 2]"]
  by (simp add: first_free_fresh example_chan_ok example_chan_value globals_empty_def)

end
