(* ===== verification/Io_Channel.thy ===== *)
theory Io_Channel
  imports Tcp_Channel
begin

text \<open>
  \<^verbatim>\<open>core/src/io_channel_impl.cc\<close>, \<^verbatim>\<open>core/include/io_channel_impl.h\<close> and \<^verbatim>\<open>core/pybind11/api_manager.h\<close>: the
  process-wide object behind the Python interface. It builds a channel from a configuration,
  passes data to it, and prints who connects to whom. What it runs on is the record \<open>platform\<close>:
  the file system, the JSON parser, Ice, the memory for strings, and the build (\<open>pf_gm\<close> is
  \<open>SSL_TYPE == 2\<close>, \<open>pf_use_buffer\<close> with its \<open>recv\<close> and \<open>write\<close>).
\<close>

section \<open>State\<close>

record ('b, 'p) platform =
  pf_files :: "string \<Rightarrow> string option"
  pf_parser :: "string \<Rightarrow> json option"
  pf_gm :: bool
  pf_ice :: "'p ice_lib"
  pf_string :: "int \<Rightarrow> unit res"
  pf_use_buffer :: bool
  pf_recv :: "string \<Rightarrow> int \<Rightarrow> cell list \<Rightarrow> int \<Rightarrow> wake list \<Rightarrow> 'b ClientConnection
      \<Rightarrow> (int \<times> cell list \<times> 'b ClientConnection) res"
  pf_wr :: "string \<Rightarrow> byte list \<Rightarrow> 'b ClientConnection \<Rightarrow> 'b ClientConnection res"

text \<open>\<open>io_channel_\<close>: the address of the channel, and the object there.\<close>

record ('b, 'p) IoChannelImpl =
  ic_channel :: "(nat \<times> ('b, 'p) TcpChannel) option"

definition IoChannelImpl_new :: "('b, 'p) IoChannelImpl" where
  "IoChannelImpl_new = \<lparr>ic_channel = None\<rparr>"

definition NodeInfo_new :: NodeInfo where
  "NodeInfo_new = \<lparr>ni_id = [], ni_address = [], ni_public_ip = [], ni_via_address = [],
     ni_glacier2_info = IcePlugCfg_new, ni_ice_grid_info = IcePlugCfg_new, ni_ca_cert_path = [],
     ni_cert_dir = [], ni_server_key_path = [], ni_server_cert_path = [], ni_client_key_path = [],
     ni_client_cert_path = [], ni_password = [], ni_server_sign_key_path = [],
     ni_server_sign_cert_path = [], ni_server_enc_key_path = [], ni_server_enc_cert_path = [],
     ni_client_sign_key_path = [], ni_client_sign_cert_path = [], ni_client_enc_key_path = [],
     ni_client_enc_cert_path = []\<rparr>"

section \<open>Creating a channel\<close>

text \<open>
  \<open>init\<close> returns true whenever it returns, so the report \<^verbatim>\<open>init io failed!\<close> after it is never
  reached. The new channel is placed at the address \<open>this\<close>; a channel made before is forgotten,
  not deleted.
\<close>

definition CreateViaChannel ::
    "('b, 'p) platform \<Rightarrow> surroundings \<Rightarrow> nat \<Rightarrow> NodeInfo \<Rightarrow> ChannelConfig \<Rightarrow> ViaInfo list \<Rightarrow> string list
     \<Rightarrow> ('b, 'p) IoChannelImpl \<Rightarrow> (nat \<times> ('b, 'p) IoChannelImpl) res" where
  "CreateViaChannel pf env this node_info config remote_server_infos clientNodeIds impl =
     res_bind (via_init (pf_ice pf) (pf_use_buffer pf) (pf_recv pf) (pf_wr pf) env config
                 (BasicIO node_info remote_server_infos clientNodeIds)) (\<lambda>net_io.
     let tcp_channel = SetConnectedNodeIDs clientNodeIds (TcpChannel net_io config node_info) in
     Ok (this, impl\<lparr>ic_channel := Some (this, tcp_channel)\<rparr>))"

definition CreateIoChannel ::
    "('b, 'p) platform \<Rightarrow> surroundings \<Rightarrow> nat \<Rightarrow> string \<Rightarrow> string
     \<Rightarrow> ('b, 'p) IoChannelImpl \<Rightarrow> (nat \<times> ('b, 'p) IoChannelImpl) res" where
  "CreateIoChannel pf env this self_node_id config_str impl =
     res_bind (ChannelConfig_of (pf_files pf) (pf_parser pf) (pf_gm pf) self_node_id config_str) (\<lambda>config.
     res_bind (GetNode config self_node_id) (\<lambda>node.
     let (node_info, config) = CopyNodeInfo (pf_gm pf) node NodeInfo_new config in
     res_bind (GetNodeInfos (pf_gm pf) self_node_id ([], [], config)) (\<lambda>(clientNodeIds, remote_server_infos, config).
     CreateViaChannel pf env this node_info config remote_server_infos clientNodeIds impl)))"

text \<open>The destructor: what happens to the memory of the answers.\<close>

definition delete_IoChannelImpl :: "('b, 'p) IoChannelImpl \<Rightarrow> globals \<Rightarrow> (('b, 'p) IoChannelImpl \<times> globals) res" where
  "delete_IoChannelImpl impl g =
     (case ic_channel impl of
        None \<Rightarrow> Ok (impl, g)
      | Some (this, _) \<Rightarrow> res_bind (delete_TcpChannel this g) (\<lambda>g. Ok (impl\<lparr>ic_channel := None\<rparr>, g)))"

section \<open>Data\<close>

text \<open>The string of zeros is built before anything else; what \<open>Recv\<close> returns is dropped.\<close>

definition impl_Recv ::
    "('b, 'p) platform \<Rightarrow> string \<Rightarrow> int \<Rightarrow> int \<Rightarrow> wake list \<Rightarrow> ('b, 'p) IoChannelImpl
     \<Rightarrow> (cell list \<times> ('b, 'p) IoChannelImpl) res" where
  "impl_Recv pf remote_node_id recv_len beg ws impl =
     res_bind (pf_string pf recv_len) (\<lambda>_.
     let str = replicate (nat recv_len) (Some 0) in
     case ic_channel impl of
       None \<Rightarrow> Ok ([], impl)
     | Some (this, ch) \<Rightarrow>
         res_bind (tcp_Recv (pf_recv pf) (c_str remote_node_id) '''' (Some str) recv_len beg ws ch) (\<lambda>(_, data, ch).
         Ok (case data of None \<Rightarrow> str | Some str \<Rightarrow> str, impl\<lparr>ic_channel := Some (this, ch)\<rparr>)))"

definition impl_Send ::
    "string \<Rightarrow> byte list \<Rightarrow> int \<Rightarrow> attempt list \<Rightarrow> ('b, 'p) IoChannelImpl \<Rightarrow> nat \<times> int res" where
  "impl_Send remote_node_id data now as impl =
     (case ic_channel impl of
        None \<Rightarrow> (0, Ok 0)
      | Some (_, ch) \<Rightarrow> tcp_Send (c_str remote_node_id) data now as ch)"

section \<open>The policy in words\<close>

definition quoted :: "string \<Rightarrow> string" where
  "quoted s = [CHR 0x22] @ s @ [CHR 0x22]"

text \<open>\<open>if(!s.empty()) { s += ","; }\<close>.\<close>

definition comma :: "string \<Rightarrow> string" where
  "comma s = (if s \<noteq> [] then s @ '','' else s)"

definition add_server :: "ViaInfo \<Rightarrow> string \<Rightarrow> string" where
  "add_server v strSid = comma strSid @ quoted (vi_id v)"

definition policy_row :: "bool \<Rightarrow> string \<Rightarrow> string \<times> ChannelConfig \<Rightarrow> (string \<times> ChannelConfig) res" where
  "policy_row gm node_id t =
     (case t of (strPolicy, cfg) \<Rightarrow>
      let strPolicy = comma strPolicy @ quoted node_id @ '':'' in
      res_bind (GetNodeInfos gm node_id ([], [], cfg)) (\<lambda>(_, serverInfos, cfg).
      let strSid = fold add_server serverInfos [] in
      Ok (strPolicy @ ''['' @ strSid @ '']'', cfg)))"

definition GetPolicy :: "('b, 'p) platform \<Rightarrow> string \<Rightarrow> string res" where
  "GetPolicy pf config_str =
     res_bind (ChannelConfig_of (pf_files pf) (pf_parser pf) (pf_gm pf) '''' config_str) (\<lambda>config.
     res_bind (res_fold (policy_row (pf_gm pf)) (task_nodes config) ([], config)) (\<lambda>(strPolicy, _).
     Ok (''{'' @ strPolicy @ ''}'')))"

section \<open>The Python interface\<close>

text \<open>
  \<open>APIManager\<close> passes everything on to the one object \<open>IoChannelImpl::Instance()\<close>; a \<open>py::bytes\<close>
  is the string it is made from. Its callback \<open>process_error\<close> prints, and is never called.
\<close>

definition api_GetPolicy :: "('b, 'p) platform \<Rightarrow> string \<Rightarrow> string res" where
  "api_GetPolicy pf config_str = GetPolicy pf config_str"

definition api_create_channel ::
    "('b, 'p) platform \<Rightarrow> surroundings \<Rightarrow> nat \<Rightarrow> string \<Rightarrow> string
     \<Rightarrow> ('b, 'p) IoChannelImpl \<Rightarrow> (nat \<times> ('b, 'p) IoChannelImpl) res" where
  "api_create_channel pf env this node_id config_str impl = CreateIoChannel pf env this node_id config_str impl"

definition api_Recv ::
    "('b, 'p) platform \<Rightarrow> string \<Rightarrow> int \<Rightarrow> int \<Rightarrow> wake list \<Rightarrow> ('b, 'p) IoChannelImpl
     \<Rightarrow> (cell list \<times> ('b, 'p) IoChannelImpl) res" where
  "api_Recv pf node_id recv_len beg ws impl = impl_Recv pf node_id recv_len beg ws impl"

definition api_Send ::
    "string \<Rightarrow> byte list \<Rightarrow> int \<Rightarrow> attempt list \<Rightarrow> ('b, 'p) IoChannelImpl \<Rightarrow> nat \<times> int res" where
  "api_Send node_id data now as impl = impl_Send node_id data now as impl"

lemmas api_defs = api_create_channel_def api_Recv_def api_Send_def

section \<open>Properties\<close>

text \<open>Sending to a node and receiving from it is possible on a channel.\<close>

definition can_send :: "string \<Rightarrow> ('b, 'p) TcpChannel \<Rightarrow> bool" where
  "can_send n ch \<longleftrightarrow> (\<exists>io. tc_net_io ch = Some io \<and> n \<in> dom (io_client_obj_map io))"

definition can_recv :: "string \<Rightarrow> ('b, 'p) TcpChannel \<Rightarrow> bool" where
  "can_recv n ch \<longleftrightarrow> (\<exists>io. tc_net_io ch = Some io \<and> n \<in> dom (io_client_conn_map io))"

lemma ordered_list_of_set:
  assumes "ordered_by (\<lambda>x. x) xs"
  shows "xs = sorted_list_of_set (set xs)"
proof -
  have "sorted_wrt (<) xs" using assms by (simp add: ordered_by_def)
  then show ?thesis by (simp add: strict_sorted_iff sorted_list_of_set.idem_if_sorted_distinct)
qed

text \<open>What is behind a channel that was created.\<close>

lemma created_channel:
  assumes "conn_build (pf_recv pf) (pf_wr pf)"
    "ChannelConfig_of (pf_files pf) (pf_parser pf) (pf_gm pf) i txt = Ok cfg" "millis (send_timeout cfg) = Ok t"
    "CreateIoChannel pf env this i txt impl = Ok (p, impl')"
  obtains ch io cfg' where "p = this" "ic_channel impl' = Some (this, ch)" "tc_net_io ch = Some io"
    "io_ready t (node_clients cfg i) (node_servers cfg i) io" "ni_id (io_node_info io) = i"
    "ni_id (tc_self_node_info ch) = i" "tc_config ch = Some cfg'" "same_nodes cfg cfg'"
    "tc_connected_nodes ch = sorted_list_of_set (node_clients cfg i)"
    "cfg_wf cfg" "i \<in> set (task_nodes cfg)" "answerable cfg i"
proof -
  have wf: "cfg_wf cfg" using loaded_wf [OF assms(2)] by simp
  obtain node where node: "GetNode cfg i = Ok node"
    using assms(2,4) by (auto simp: CreateIoChannel_def res_bind_Ok_iff)
  obtain info cfg1 where c: "CopyNodeInfo (pf_gm pf) node NodeInfo_new cfg = (info, cfg1)" by fastforce
  have s1: "ni_id info = i" "same_nodes cfg cfg1" "i \<in> set (task_nodes cfg)"
    using CopyNodeInfo_frame [OF c] GetNode_Ok [OF wf node] by simp_all
  obtain clients servers cfg2 io where g: "GetNodeInfos (pf_gm pf) i ([], [], cfg1) = Ok (clients, servers, cfg2)"
      and v: "via_init (pf_ice pf) (pf_use_buffer pf) (pf_recv pf) (pf_wr pf) env cfg2 (BasicIO info servers clients) = Ok io"
      and r: "p = this" "impl' = impl\<lparr>ic_channel := Some (this, SetConnectedNodeIDs clients (TcpChannel io cfg2 info))\<rparr>"
    using assms(2,4) node c by (auto simp: CreateIoChannel_def CreateViaChannel_def res_bind_Ok_iff Let_def)
  note o = topo_outcome_Ok [OF wf s1(2) g]
  have s2: "same_nodes cfg cfg2" "ordered_by (\<lambda>x. x) clients" using o(1) by (simp_all add: topo_ok_def)
  then have "millis (send_timeout cfg2) = Ok t" using assms(3) by (simp add: same_nodes_def)
  with v have "io_ready t (set clients) (vi_id ` set servers) io \<and> io_node_info io = info"
    by (rule conn_build.via_init_makes_ready [OF assms(1)])
  then have io: "io_ready t (node_clients cfg i) (node_servers cfg i) io" "io_node_info io = info"
    using o(3,4) by simp_all
  let ?ch = "SetConnectedNodeIDs clients (TcpChannel io cfg2 info)"
  have f: "tc_net_io ?ch = Some io" "tc_self_node_info ?ch = info" "tc_config ?ch = Some cfg2" "tc_connected_nodes ?ch = clients"
    by (simp_all add: SetConnectedNodeIDs_def TcpChannel_def)
  have "clients = sorted_list_of_set (node_clients cfg i)" using ordered_list_of_set [OF s2(2)] o(3) by simp
  then show thesis
    using that [of ?ch io cfg2] r io f s1 s2(1) wf o(2) by simp
qed

text \<open>
  C37. A channel is what the configuration says: it answers with its own identifier and with the
  clients the policy gives it, in order; it can send to exactly its servers and receive from
  exactly its clients, with the configured timeout.
\<close>

theorem channel_created:
  assumes "conn_build (pf_recv pf) (pf_wr pf)"
    "ChannelConfig_of (pf_files pf) (pf_parser pf) (pf_gm pf) i txt = Ok cfg" "millis (send_timeout cfg) = Ok t"
    "CreateIoChannel pf env this i txt impl = Ok (p, impl')"
  shows "\<exists>ch io. p = this \<and> ic_channel impl' = Some (this, ch) \<and> tc_net_io ch = Some io \<and>
    io_ready t (node_clients cfg i) (node_servers cfg i) io \<and>
    getCurrentNodeID ch = Ok i \<and> getConnectedNodeIDs ch = Ok (sorted_list_of_set (node_clients cfg i)) \<and>
    getDataNodeIDs ch = Ok (data_nodes cfg) \<and> getComputationNodeIDs ch = Ok (compute_nodes cfg) \<and>
    getResultNodeIDs ch = Ok (result_nodes cfg) \<and>
    (\<forall>n. (can_send n ch \<longleftrightarrow> n \<in> node_servers cfg i) \<and> (can_recv n ch \<longleftrightarrow> n \<in> node_clients cfg i))"
proof -
  obtain ch io cfg' where c: "p = this" "ic_channel impl' = Some (this, ch)" "tc_net_io ch = Some io"
      "io_ready t (node_clients cfg i) (node_servers cfg i) io" "ni_id (tc_self_node_info ch) = i"
      "tc_config ch = Some cfg'" "same_nodes cfg cfg'" "tc_connected_nodes ch = sorted_list_of_set (node_clients cfg i)"
    by (rule created_channel [OF assms])
  moreover have "(can_send n ch \<longleftrightarrow> n \<in> node_servers cfg i) \<and> (can_recv n ch \<longleftrightarrow> n \<in> node_clients cfg i)" for n
    using c(3,4) by (simp add: can_send_def can_recv_def io_ready_def)
  ultimately show ?thesis
    by (intro exI [of _ ch] exI [of _ io])
      (simp add: getCurrentNodeID_def getConnectedNodeIDs_def getDataNodeIDs_def getComputationNodeIDs_def
        getResultNodeIDs_def deref_def same_nodes_def)
qed


text \<open>Receiving from a known peer is receiving from its connection.\<close>

lemma impl_Recv_known:
  assumes "ic_channel impl = Some (this, ch)" "tc_net_io ch = Some io" "io_client_conn_map io (c_str n) = Some c"
  shows "impl_Recv pf n len beg ws impl =
    res_bind (pf_string pf len) (\<lambda>_.
    res_bind (pf_recv pf '''' len (replicate (nat len) (Some 0)) beg ws c) (\<lambda>(_, str, c).
    Ok (str, impl\<lparr>ic_channel := Some (this, ch\<lparr>tc_net_io :=
      Some (io\<lparr>io_client_conn_map := (io_client_conn_map io)(c_str n \<mapsto> c)\<rparr>)\<rparr>)\<rparr>)))"
  using assms by (simp add: impl_Recv_def tcp_Recv_def via_recv_def res_bind_assoc Let_def case_prod_unfold)


text \<open>Two channels of one task: both are ready, and their ends agree.\<close>

lemma node_sets_id [simp]:
  "node_clients (cfg\<lparr>cfg_node_id := x\<rparr>) n = node_clients cfg n" "node_servers (cfg\<lparr>cfg_node_id := x\<rparr>) n = node_servers cfg n"
  "answerable (cfg\<lparr>cfg_node_id := x\<rparr>) n = answerable cfg n"
  by (simp_all add: node_clients_def node_servers_def answerable_def policy_clients_def policy_servers_def)

lemma two_channels:
  assumes "conn_build (pf_recv pf) (pf_wr pf)" "conn_build (pf_recv pf') (pf_wr pf')"
    "pf_files pf' doc = pf_files pf doc" "pf_parser pf' = pf_parser pf" "pf_gm pf' = pf_gm pf"
    "ChannelConfig_of (pf_files pf) (pf_parser pf) (pf_gm pf) i doc = Ok cfg" "millis (send_timeout cfg) = Ok t"
    "CreateIoChannel pf env a i doc impl = Ok (p, impl1)" "CreateIoChannel pf' env' b j doc impl' = Ok (q, impl2)" "i \<noteq> j"
  obtains ch1 io1 ch2 io2 where "ic_channel impl1 = Some (a, ch1)" "tc_net_io ch1 = Some io1" "ni_id (io_node_info io1) = i"
    "io_ready t (node_clients cfg i) (node_servers cfg i) io1"
    "ic_channel impl2 = Some (b, ch2)" "tc_net_io ch2 = Some io2" "io_ready t (node_clients cfg j) (node_servers cfg j) io2"
    "j \<in> node_servers cfg i \<longleftrightarrow> i \<in> node_clients cfg j"
proof -
  let ?cfg = "cfg\<lparr>cfg_node_id := j\<rparr>"
  have "ChannelConfig_of (pf_files pf') (pf_parser pf') (pf_gm pf') j doc = ChannelConfig_of (pf_files pf) (pf_parser pf) (pf_gm pf) j doc"
    using assms(3-5) by (simp add: ChannelConfig_of_def cfg_load_def)
  then have j: "ChannelConfig_of (pf_files pf') (pf_parser pf') (pf_gm pf') j doc = Ok ?cfg"
    using same_document [of "pf_files pf" "pf_parser pf" "pf_gm pf" j doc i] assms(6) by simp
  have t: "millis (send_timeout ?cfg) = Ok t" using assms(7) by simp
  obtain ch1 io1 where 1: "ic_channel impl1 = Some (a, ch1)" "tc_net_io ch1 = Some io1" "ni_id (io_node_info io1) = i"
      "io_ready t (node_clients cfg i) (node_servers cfg i) io1" "i \<in> set (task_nodes cfg)"
    by (rule created_channel [OF assms(1,6,7,8)])
  obtain ch2 io2 where 2: "ic_channel impl2 = Some (b, ch2)" "tc_net_io ch2 = Some io2"
      "io_ready t (node_clients ?cfg j) (node_servers ?cfg j) io2" "j \<in> set (task_nodes ?cfg)"
    by (rule created_channel [OF assms(2) j t assms(9)])
  then show thesis using that [OF 1(1-4) 2(1,2)] ends_agree [OF assms(10) 1(5)] by simp
qed

text \<open>
  C3. Two nodes that read the same document fit together: the one can send to the other if and
  only if the other can receive from it, on whatever build and with whatever Ice each of them runs.
\<close>

theorem channels_connect:
  assumes "conn_build (pf_recv pf) (pf_wr pf)" "conn_build (pf_recv pf') (pf_wr pf')"
    "pf_files pf' doc = pf_files pf doc" "pf_parser pf' = pf_parser pf" "pf_gm pf' = pf_gm pf"
    "ChannelConfig_of (pf_files pf) (pf_parser pf) (pf_gm pf) i doc = Ok cfg" "millis (send_timeout cfg) = Ok t"
    "CreateIoChannel pf env a i doc impl = Ok (p, impl1)" "CreateIoChannel pf' env' b j doc impl' = Ok (q, impl2)" "i \<noteq> j"
  shows "\<exists>ch1 ch2. ic_channel impl1 = Some (a, ch1) \<and> ic_channel impl2 = Some (b, ch2) \<and> (can_send j ch1 \<longleftrightarrow> can_recv i ch2)"
proof -
  obtain ch1 io1 ch2 io2 where c: "ic_channel impl1 = Some (a, ch1)" "tc_net_io ch1 = Some io1"
      "io_ready t (node_clients cfg i) (node_servers cfg i) io1"
      "ic_channel impl2 = Some (b, ch2)" "tc_net_io ch2 = Some io2" "io_ready t (node_clients cfg j) (node_servers cfg j) io2"
      "j \<in> node_servers cfg i \<longleftrightarrow> i \<in> node_clients cfg j"
    by (rule two_channels [OF assms])
  then have "can_send j ch1 \<longleftrightarrow> can_recv i ch2" by (simp add: can_send_def can_recv_def io_ready_def)
  then show ?thesis using c(1,4) by blast
qed

text \<open>
  C38. What \<open>Recv\<close> returns, in the queue build: always a string of the length asked for. It is the
  oldest message of the peer under the empty identifier, filled up with zeros, or, when the wait
  has timed out, zeros only; the two cannot be told apart when the message is all zeros.
\<close>

theorem recv_padded:
  assumes "ic_channel impl = Some (this, ch)" "tc_net_io ch = Some io" "io_client_conn_map io (c_str n) = Some c"
    "recv_timeout c = Some t" "pf_recv pf = conn_recv_q" "impl_Recv pf n len beg ws impl = Ok (str, impl')"
  shows "length str = nat len \<and> None \<notin> set str \<and>
    ((\<exists>k d q. queued c '''' @ msgs_for '''' (concat (map w_writes (take k ws))) = d # q \<and>
        str = map Some d @ replicate (nat len - length d) (Some 0)) \<or>
     str = replicate (nat len) (Some 0) \<and> (\<exists>w \<in> set ws. wait_timed_out t beg w))"
proof -
  let ?z = "replicate (nat len) (Some 0) :: cell list"
  obtain r c' where "conn_recv_q '''' len ?z beg ws c = Ok (r, str, c')"
    using assms(5,6) unfolding impl_Recv_known [OF assms(1-3)] by (auto simp: res_bind_Ok_iff)
  then have "recv_loop (conn_try_q '''' ?z) (res_fold (\<lambda>(m, d) c. Ok (conn_write_q m d c))) t beg ?z ws c = Ok (r, str, c')"
    using assms(4) by (simp add: conn_recv_q_def)
  from recv_loop_outcome [OF this] show ?thesis
  proof (elim disjE exE conjE)
    fix k c1
    assume w: "res_fold (\<lambda>(m, d) c. Ok (conn_write_q m d c)) (concat (map w_writes (take k ws))) c = Ok c1"
      and a: "conn_try_q '''' ?z c1 = Ok (Some (r, str, c'))"
    have "queued c1 '''' = queued c '''' @ msgs_for '''' (concat (map w_writes (take k ws)))"
      using w by (auto simp: fold_writes_q queued_fold)
    moreover obtain d q where d: "queued c1 '''' = d # q" "length d \<le> nat len" "str = map Some d @ replicate (nat len - length d) (Some 0)"
      using a by (auto simp: conn_try_q_cases split: list.splits if_splits)
    ultimately have "queued c '''' @ msgs_for '''' (concat (map w_writes (take k ws))) = d # q" by simp
    moreover have "length str = nat len" "None \<notin> set str" using d(2,3) by auto
    ultimately show ?thesis using d(3) by blast
  qed auto
qed

text \<open>
  The text of a policy, written out: a JSON object with a member for every node, whose value is the
  array of the names of its servers.
\<close>

fun separated :: "string list \<Rightarrow> string" where
  "separated [] = []"
| "separated [x] = x"
| "separated (x # y # xs) = x @ '','' @ separated (y # xs)"

definition row_text :: "string \<times> string list \<Rightarrow> string" where
  "row_text = (\<lambda>(n, ss).
     CHR 0x22 # n @ [CHR 0x22] @ '':['' @ separated (map (\<lambda>s. CHR 0x22 # s @ [CHR 0x22]) ss) @ '']'')"

definition policy_text :: "(string \<times> string list) list \<Rightarrow> string" where
  "policy_text rows = ''{'' @ separated (map row_text rows) @ ''}''"

lemma separated_step: "separated ((s @ '','' @ x) # xs) = separated (s # x # xs)"
  by (cases xs) simp_all

text \<open>Appending with a comma in front, but for the first, separates with commas.\<close>

lemma fold_comma:
  assumes "\<And>x. f x \<noteq> []"
  shows "fold (\<lambda>x s. comma s @ f x) xs s = separated ((if s = [] then [] else [s]) @ map f xs)"
proof -
  have *: "fold (\<lambda>x s. comma s @ f x) xs s = separated (s # map f xs)" if "s \<noteq> []" for s xs
    using that
  proof (induction xs arbitrary: s)
    case (Cons x xs)
    then show ?case using Cons.IH [of "s @ '','' @ f x"] separated_step by (simp add: comma_def)
  qed simp
  show ?thesis
  proof (cases xs)
    case (Cons x xs')
    then show ?thesis using * [of s xs] * [of "f x" xs'] assms [of x] by (auto simp: comma_def)
  qed simp
qed

lemma add_servers: "fold add_server vs [] = separated (map (\<lambda>s. CHR 0x22 # s @ [CHR 0x22]) (map vi_id vs))"
proof -
  have "fold (\<lambda>v s. comma s @ quoted (vi_id v)) vs [] = separated ([] @ map (\<lambda>v. quoted (vi_id v)) vs)"
    using fold_comma [of "\<lambda>v. quoted (vi_id v)" vs "[]"] by (simp add: quoted_def)
  then show ?thesis by (simp add: add_server_def [abs_def] quoted_def comp_def)
qed

lemma policy_rows:
  assumes "cfg_wf cfg" "same_nodes cfg cfg1"
  shows "if \<forall>n \<in> set ns. answerable cfg n then
      \<exists>cfg2. res_fold (policy_row gm) ns (s, cfg1) = Ok (fold (\<lambda>n s. comma s @
        row_text (n, sorted_list_of_set (node_servers cfg n))) ns s, cfg2)
    else is_event (res_fold (policy_row gm) ns (s, cfg1))"
  using assms(2)
proof (induction ns arbitrary: s cfg1)
  case (Cons n ns)
  show ?case
  proof (cases "answerable cfg n")
    case True
    then obtain t where t: "GetNodeInfos gm n ([], [], cfg1) = Ok t" "topo_ok cfg (node_clients cfg n) (node_servers cfg n) t"
      using topo_outcome(1) [OF assms(1) Cons.prems] by blast
    obtain clients servers cfg2 where e: "t = (clients, servers, cfg2)" by (cases t)
    have o: "ordered_by vi_id servers" "vi_id ` set servers = node_servers cfg n" "same_nodes cfg cfg2"
      using t(2) by (simp_all add: e topo_ok_def)
    have "ordered_by (\<lambda>x. x) (map vi_id servers)" using o(1) by (simp add: ordered_by_def sorted_wrt_map)
    then have "map vi_id servers = sorted_list_of_set (node_servers cfg n)" using ordered_list_of_set o(2) by fastforce
    then have "fold add_server servers [] =
        separated (map (\<lambda>s. CHR 0x22 # s @ [CHR 0x22]) (sorted_list_of_set (node_servers cfg n)))"
      by (simp only: add_servers)
    then have "policy_row gm n (s, cfg1) = Ok (comma s @ row_text (n, sorted_list_of_set (node_servers cfg n)), cfg2)"
      by (simp add: policy_row_def row_text_def t(1) e quoted_def)
    then show ?thesis using Cons.IH [OF o(3), of "comma s @ row_text (n, sorted_list_of_set (node_servers cfg n))"] True by simp
  next
    case False
    have "is_event (GetNodeInfos gm n ([], [], cfg1))" by (rule topo_outcome(2) [OF assms(1) Cons.prems False])
    then have "is_event (res_fold (policy_row gm) (n # ns) (s, cfg1))" by (simp add: policy_row_def is_event_bind)
    then show ?thesis using False by simp
  qed
qed simp

text \<open>
  C39. \<open>GetPolicy\<close> tells the truth. For a document that loads, it prints a JSON object with one
  member for every task node, in order, named by the node in double quotes, with the array of
  exactly the quoted names of the servers that a channel of that node connects to, in order, all
  separated by single commas; it is refused with an event exactly when some task node could not get a channel for want of an
  answer to that question.
\<close>

theorem GetPolicy_exact:
  assumes "ChannelConfig_of (pf_files pf) (pf_parser pf) (pf_gm pf) '''' doc = Ok cfg"
  shows "if \<forall>n \<in> set (task_nodes cfg). answerable cfg n
    then GetPolicy pf doc = Ok (policy_text (map (\<lambda>n. (n, sorted_list_of_set (node_servers cfg n))) (task_nodes cfg)))
    else is_event (GetPolicy pf doc)"
proof -
  have wf: "cfg_wf cfg" using loaded_wf [OF assms] by simp
  note rows = policy_rows [OF wf same_nodes_refl, of "task_nodes cfg" "pf_gm pf" "[]"]
  show ?thesis
  proof (cases "\<forall>n \<in> set (task_nodes cfg). answerable cfg n")
    case True
    have "fold (\<lambda>n s. comma s @ row_text (n, sorted_list_of_set (node_servers cfg n))) (task_nodes cfg) [] =
        separated (map (\<lambda>n. row_text (n, sorted_list_of_set (node_servers cfg n))) (task_nodes cfg))"
      by (subst fold_comma) (simp_all add: row_text_def)
    then show ?thesis using rows assms True by (auto simp: GetPolicy_def policy_text_def comp_def)
  next
    case False
    then have "is_event (GetPolicy pf doc)" using rows assms unfolding if_not_P [OF False] by (auto simp: GetPolicy_def)
    then show ?thesis using False by (simp only: if_False)
  qed
qed

section \<open>From one channel to another\<close>

text \<open>
  The servant of a node and its channel share \<open>client_conn_map_\<close>: what happens to a channel when
  its servant gets the calls \<open>as\<close> with the parameters \<open>params\<close>, and what is stored for a peer.
\<close>

definition served ::
    "(string \<Rightarrow> byte list \<Rightarrow> 'b ClientConnection \<Rightarrow> 'b ClientConnection res) \<Rightarrow> codec \<Rightarrow> byte list \<Rightarrow> attempt list
     \<Rightarrow> ('b, 'p) IoChannelImpl \<Rightarrow> ('b, 'p) IoChannelImpl" where
  "served wr k params as impl =
     (case ic_channel impl of
        None \<Rightarrow> impl
      | Some (this, ch) \<Rightarrow>
          (case tc_net_io ch of
             None \<Rightarrow> impl
           | Some io \<Rightarrow> impl\<lparr>ic_channel := Some (this, ch\<lparr>tc_net_io :=
               Some (io\<lparr>io_client_conn_map := servant_after wr k params as (io_client_conn_map io)\<rparr>)\<rparr>)\<rparr>))"

definition pending :: "string \<Rightarrow> string \<Rightarrow> (byte list list, 'p) IoChannelImpl \<Rightarrow> byte list list" where
  "pending n msg impl =
     (case ic_channel impl of
        None \<Rightarrow> []
      | Some (_, ch) \<Rightarrow>
          (case tc_net_io ch of
             None \<Rightarrow> []
           | Some io \<Rightarrow> (case io_client_conn_map io n of None \<Rightarrow> [] | Some c \<Rightarrow> queued c msg)))"

lemma served_channel:
  assumes "ice_codec k" "length self < 2 ^ 31" "length msg < 2 ^ 31" "length data < 2 ^ 31"
    "length (sent_params k self msg data) < 2 ^ 31"
    "ic_channel impl = Some (this, ch)" "tc_net_io ch = Some io" "io_client_conn_map io self = Some c"
    "res_fold (\<lambda>_. wr msg data) (filter at_executed as) c = Ok c'"
  shows "ic_channel (served wr k (sent_params k self msg data) as impl) = Some (this, ch\<lparr>tc_net_io :=
    Some (io\<lparr>io_client_conn_map := (io_client_conn_map io)(self \<mapsto> c')\<rparr>)\<rparr>)"
  using servant_after_stores [where conns = "io_client_conn_map io" and wr = wr, OF assms(1-5,8,9)] assms(6,7) by (simp add: served_def)

text \<open>A send that returns was made by a channel whose peer has a connection for it.\<close>

lemma send_finds_peer:
  assumes "conn_build (pf_recv pf) (pf_wr pf)" "conn_build (pf_recv pf') (pf_wr pf')"
    "pf_files pf' doc = pf_files pf doc" "pf_parser pf' = pf_parser pf" "pf_gm pf' = pf_gm pf"
    "ChannelConfig_of (pf_files pf) (pf_parser pf) (pf_gm pf) i doc = Ok cfg" "millis (send_timeout cfg) = Ok t"
    "CreateIoChannel pf env a i doc impl = Ok (p, impl1 :: ('b, 'p) IoChannelImpl)" "CreateIoChannel pf' env' b j doc impl' = Ok (q, impl2)" "i \<noteq> j"
    "impl_Send j data now as impl1 = (n, Ok len)" "c_str j = j"
  obtains client :: "'p BaseClient" and ch io c where "client_send i j data now as client = (n, Ok len)"
    "ic_channel impl2 = Some (b, ch)" "tc_net_io ch = Some io" "io_client_conn_map io i = Some c" "recv_timeout c = Some t"
proof -
  obtain ch1 io1 ch2 io2 where c: "ic_channel impl1 = Some (a, ch1)" "tc_net_io ch1 = Some io1" "ni_id (io_node_info io1) = i"
      "io_ready t (node_clients cfg i) (node_servers cfg i) io1"
      "ic_channel impl2 = Some (b, ch2)" "tc_net_io ch2 = Some io2" "io_ready t (node_clients cfg j) (node_servers cfg j) io2"
      "j \<in> node_servers cfg i \<longleftrightarrow> i \<in> node_clients cfg j"
    by (rule two_channels [OF assms(1-10)])
  obtain client where s: "io_client_obj_map io1 j = Some client" "client_send i j data now as client = (n, Ok len)"
    using assms(11,12) c(1-3) by (auto simp: impl_Send_def tcp_Send_def via_send_def split: option.splits)
  then have "j \<in> node_servers cfg i" using c(4) by (auto simp: io_ready_def)
  then have "i \<in> dom (io_client_conn_map io2)" using c(7,8) unfolding io_ready_def by blast
  then obtain conn where conn: "io_client_conn_map io2 i = Some conn" by blast
  then have "recv_timeout conn = Some t" using c(7) by (auto simp: io_ready_def ran_def)
  then show thesis using that s(2) c(5,6) conn by blast
qed

text \<open>What a channel then receives: the oldest message that is pending.\<close>

lemma recv_pending:
  assumes "ic_channel impl = Some (this, ch)" "tc_net_io ch = Some io" "io_client_conn_map io n = Some c" "c_str n = n"
    "recv_timeout c = Some t" "queued c '''' = d # q" "pf_recv pf = conn_recv_q" "pf_string pf (int (length d)) = Ok ()"
  shows "\<exists>impl'. impl_Recv pf n (int (length d)) beg ws impl = Ok (map Some d, impl') \<and> pending n '''' impl' = q"
proof -
  have "\<exists>c'. conn_recv_q '''' (int (length d)) (replicate (length d) (Some 0)) beg ws c = Ok (int (length d), map Some d, c') \<and> queued c' '''' = q"
    using assms(5,6) by (cases ws) (auto simp: conn_recv_q_def conn_try_q_cases queued_def)
  then show ?thesis
    using impl_Recv_known [OF assms(1,2), of n c pf "int (length d)" beg ws] assms(3,4,7,8)
    by (auto simp: pending_def)
qed

section \<open>An example\<close>

text \<open>Two nodes, the first of which sends to the second; Ice accepts everything and every first call succeeds.\<close>

definition pair_doc :: json where
  "pair_doc = JObject
     [(''TASK_ID'', JString ''t1''),
      (''NODE_INFO'', JArray
        [JObject [(''NODE_ID'', JString ''p0''), (''ADDRESS'', JString ''10.0.0.1:8000'')],
         JObject [(''NODE_ID'', JString ''p1''), (''ADDRESS'', JString ''10.0.0.2:8000'')]]),
      (''DATA_NODES'', JArray [JString ''p0'']), (''COMPUTATION_NODES'', JObject [(''p1'', JString ''P0'')]),
      (''POLICY'', JObject [(''p0'', JArray [JString ''p1''])])]"

definition pair_with ::
    "bool \<Rightarrow> (string \<Rightarrow> int \<Rightarrow> cell list \<Rightarrow> int \<Rightarrow> wake list \<Rightarrow> 'b ClientConnection
      \<Rightarrow> (int \<times> cell list \<times> 'b ClientConnection) res)
     \<Rightarrow> (string \<Rightarrow> byte list \<Rightarrow> 'b ClientConnection \<Rightarrow> 'b ClientConnection res) \<Rightarrow> ('b, unit) platform" where
  "pair_with ub recv wr = \<lparr>pf_files = (\<lambda>_. None), pf_parser = (\<lambda>s. if s = ''pair'' then Some pair_doc else None), pf_gm = False,
     pf_ice = example_ice, pf_string = (\<lambda>_. Ok ()), pf_use_buffer = ub, pf_recv = recv, pf_wr = wr\<rparr>"

definition pair_platform :: "(byte list list, unit) platform" where
  "pair_platform = pair_with False conn_recv_q write_q"

definition pair_cfg :: ChannelConfig where
  "pair_cfg = (case cfg_parse False pair_doc ChannelConfig_new of Ok c \<Rightarrow> c)"

lemma pair_parsed: "cfg_parse False pair_doc ChannelConfig_new = Ok pair_cfg"
proof -
  have "case cfg_parse False pair_doc ChannelConfig_new of Ok _ \<Rightarrow> True | _ \<Rightarrow> False" by code_simp
  then show ?thesis by (auto simp: pair_cfg_def split: res.splits)
qed

lemma pair_with_loaded:
  "ChannelConfig_of (pf_files (pair_with ub recv wr)) (pf_parser (pair_with ub recv wr)) (pf_gm (pair_with ub recv wr)) n ''pair'' = Ok (pair_cfg\<lparr>cfg_node_id := n\<rparr>)"
proof -
  have "ChannelConfig_of (pf_files (pair_with ub recv wr)) (pf_parser (pair_with ub recv wr)) (pf_gm (pair_with ub recv wr)) '''' ''pair'' = Ok (pair_cfg\<lparr>cfg_node_id := ''''\<rparr>)"
    using pair_parsed
    by (simp add: ChannelConfig_of_def cfg_load_def Let_def pair_with_def c_str_def ChannelConfig_new_def)
  then show ?thesis
    using same_document [of "pf_files (pair_with ub recv wr)" "pf_parser (pair_with ub recv wr)" "pf_gm (pair_with ub recv wr)" n "''pair''" "''''"] by simp
qed

lemmas pair_loaded = pair_with_loaded [of False conn_recv_q write_q, folded pair_platform_def]

text \<open>The steps before the pings, evaluated.\<close>

definition pair_start :: "'b itself \<Rightarrow> bool \<Rightarrow> string \<Rightarrow> bool" where
  "pair_start ty ub n =
     (case GetNode pair_cfg n of
        Ok node \<Rightarrow>
          (let (info, cfg) = CopyNodeInfo False node NodeInfo_new (pair_cfg\<lparr>cfg_node_id := n\<rparr>) in
           case GetNodeInfos False n ([], [], cfg) of
             Ok (clients, servers, cfg) \<Rightarrow>
               \<not> conn_sync cfg \<and> millis (conn_timeout cfg) = Ok 5000 \<and> millis (send_timeout cfg) = Ok 5000 \<and>
               float_to_uint 32 (to_float (ping_time cfg * 1000000)) = Ok 1000000 \<and> buffer_size cfg = 8192 \<and>
               (case init_objects example_ice ub cfg (BasicIO info servers clients) of
                  Ok (io :: ('b, unit) BasicIO) \<Rightarrow> True
                | _ \<Rightarrow> False)
           | _ \<Rightarrow> False)
      | _ \<Rightarrow> False)"

lemma pair_starts: "pair_start TYPE(byte list list) False ''p0''" "pair_start TYPE(byte list list) False ''p1''"
  by code_simp+

lemma pair_with_created:
  fixes impl :: "('b, unit) IoChannelImpl"
  assumes "pair_start TYPE('b) ub n"
  obtains impl' ch io cfg where "CreateIoChannel (pair_with ub recv wr) example_env this n ''pair'' impl = Ok (this, impl')"
    "ic_channel impl' = Some (this, ch)" "tc_net_io ch = Some io" "buffer_size cfg = 8192"
    "\<forall>m. io_client_conn_map io m = None \<or> io_client_conn_map io m = Some (new_conn ub cfg 5000 m)"
proof -
  have g: "GetNode (pair_cfg\<lparr>cfg_node_id := n\<rparr>) n = GetNode pair_cfg n" by (simp add: GetNode_find split: option.split)
  note start = assms [unfolded pair_start_def]
  obtain node where 1: "GetNode pair_cfg n = Ok node" using start by (cases "GetNode pair_cfg n") simp_all
  obtain info cfg1 where 2: "CopyNodeInfo False node NodeInfo_new (pair_cfg\<lparr>cfg_node_id := n\<rparr>) = (info, cfg1)" by fastforce
  obtain clients servers cfg where 3: "GetNodeInfos False n ([], [], cfg1) = Ok (clients, servers, cfg)"
    using start 1 2 by (cases "GetNodeInfos False n ([], [], cfg1)") auto
  then have 4: "\<not> conn_sync cfg" "millis (conn_timeout cfg) = Ok 5000" "float_to_uint 32 (to_float (ping_time cfg * 1000000)) = Ok 1000000"
      "millis (send_timeout cfg) = Ok 5000" "buffer_size cfg = 8192"
    using start 1 2 by simp_all
  obtain io :: "('b, unit) BasicIO" where 5: "init_objects example_ice ub cfg (BasicIO info servers clients) = Ok io"
    using start 1 2 3 by (auto split: res.split_asm)
  have "\<exists>a as. call_attempts example_env m = a # as \<and> \<not> at_failed a" for m by (simp add: example_env_def)
  then have "via_init example_ice ub recv wr example_env cfg (BasicIO info servers clients) = Ok io"
    by (rule via_init_pings [OF 4(1) 5 4(2,3)])
  then have "CreateIoChannel (pair_with ub recv wr) example_env this n ''pair'' impl =
      Ok (this, impl\<lparr>ic_channel := Some (this, SetConnectedNodeIDs clients (TcpChannel io cfg info))\<rparr>)"
    using 1 2 3 g pair_with_loaded [of ub recv wr n] by (simp add: CreateIoChannel_def CreateViaChannel_def pair_with_def Let_def)
  moreover have "io_client_conn_map io m = None \<or> io_client_conn_map io m = Some (new_conn ub cfg 5000 m)" for m
    using init_objects_ready [OF 5 4(4)] by (auto simp: io_ready_def)
  ultimately show thesis
    using that [of "impl\<lparr>ic_channel := Some (this, SetConnectedNodeIDs clients (TcpChannel io cfg info))\<rparr>" _ io cfg] 4(5)
    by (simp add: SetConnectedNodeIDs_def TcpChannel_def)
qed

lemma pair_created:
  assumes "pair_start TYPE(byte list list) False n"
  shows "\<exists>impl'. CreateIoChannel pair_platform example_env this n ''pair'' impl = Ok (this, impl') \<and> (\<forall>m. pending m '''' impl' = [])"
proof -
  obtain impl' ch io cfg where c: "CreateIoChannel pair_platform example_env this n ''pair'' impl = Ok (this, impl')"
      "ic_channel impl' = Some (this, ch)" "tc_net_io ch = Some io" "buffer_size cfg = 8192"
      "\<forall>m. io_client_conn_map io m = None \<or> io_client_conn_map io m = Some (new_conn False cfg 5000 m)"
    by (rule pair_with_created [OF assms, where recv = conn_recv_q and wr = write_q and this = this and impl = impl, folded pair_platform_def])
  have "pending m '''' impl' = []" for m using spec [OF c(5), of m] c(2,3) by (elim disjE) (simp_all add: pending_def queued_def)
  then show ?thesis using c(1) by blast
qed

lemma pair_millis: "millis (send_timeout (pair_cfg\<lparr>cfg_node_id := n\<rparr>)) = Ok 5000"
proof -
  have "send_timeout pair_cfg = 5" by code_simp
  then show ?thesis using example_millis by (simp add: sync_cfg_def ChannelConfig_new_def)
qed

lemma pair_build: "conn_build (pf_recv pair_platform) (pf_wr pair_platform)"
  using bq.conn_build_axioms by (simp add: pair_platform_def pair_with_def)

lemma pair_sets: "node_servers pair_cfg ''p0'' = {''p1''}" "node_clients pair_cfg ''p0'' = {}"
proof -
  have "map_policy pair_cfg = [(''p0'', [''p1''])]" by code_simp
  then show "node_servers pair_cfg ''p0'' = {''p1''}" "node_clients pair_cfg ''p0'' = {}"
    by (auto simp: node_servers_def node_clients_def policy_clients_def policy_servers_def)
qed

text \<open>The first node sends two bytes; the answer to its first call is lost.\<close>

lemma pair_sent:
  "\<exists>impl1. api_create_channel pair_platform example_env 7 ''p0'' ''pair'' IoChannelImpl_new = Ok (7, impl1) \<and>
    api_Send ''p1'' [5, 6] 0 example_attempts impl1 = (2, Ok 2)"
proof -
  obtain impl1 where 1: "CreateIoChannel pair_platform example_env 7 ''p0'' ''pair'' IoChannelImpl_new = Ok (7, impl1)"
    using pair_created [OF pair_starts(1)] by blast
  obtain ch io where c: "ic_channel impl1 = Some (7, ch)" "tc_net_io ch = Some io"
      "io_ready 5000 (node_clients (pair_cfg\<lparr>cfg_node_id := ''p0''\<rparr>) ''p0'') (node_servers (pair_cfg\<lparr>cfg_node_id := ''p0''\<rparr>) ''p0'') io"
    by (rule created_channel [OF pair_build pair_loaded pair_millis 1])
  have "''p1'' \<in> dom (io_client_obj_map io)" using c(3) pair_sets(1) by (simp add: io_ready_def)
  then obtain cl where cl: "io_client_obj_map io ''p1'' = Some cl" by blast
  then have "bc_send_timeout cl = Some 5000" using c(3) by (auto simp: io_ready_def ran_def)
  then have "impl_Send ''p1'' [5, 6] 0 example_attempts impl1 = (2, Ok 2)"
    using c(1,2) cl
    by (simp add: impl_Send_def tcp_Send_def via_send_def c_str_def client_send_def example_attempts_def ms_elapse_new c_div_nonneg)
  then show ?thesis using 1 by (auto simp: api_defs)
qed

lemma pair_wire:
  "length (sent_params standard_codec ''p0'' '''' [5, 6]) < 2 ^ 31" "c_str ''p0'' = ''p0''" "c_str ''p1'' = ''p1''"
  "a \<in> set example_attempts \<Longrightarrow> \<not> at_failed a \<Longrightarrow> at_executed a"
proof -
  have "length (sent_params standard_codec ''p0'' '''' [5, 6]) = 13" by code_simp
  then show "length (sent_params standard_codec ''p0'' '''' [5, 6]) < 2 ^ 31" by simp
qed (auto simp: c_str_def example_attempts_def)

theorem channel_created_witness:
  "\<exists>impl' ch. CreateIoChannel pair_platform example_env 7 ''p0'' ''pair'' IoChannelImpl_new = Ok (7, impl') \<and>
    ic_channel impl' = Some (7, ch) \<and> can_send ''p1'' ch \<and> \<not> can_recv ''p1'' ch"
proof -
  obtain impl' where c: "CreateIoChannel pair_platform example_env 7 ''p0'' ''pair'' IoChannelImpl_new = Ok (7, impl')"
    using pair_created [OF pair_starts(1)] by blast
  then show ?thesis using channel_created [OF pair_build pair_loaded pair_millis c] pair_sets by auto
qed

theorem channels_connect_witness:
  "\<exists>impl1 impl2 ch1 ch2. CreateIoChannel pair_platform example_env 7 ''p0'' ''pair'' IoChannelImpl_new = Ok (7, impl1) \<and>
    CreateIoChannel pair_platform example_env 8 ''p1'' ''pair'' IoChannelImpl_new = Ok (8, impl2) \<and>
    ic_channel impl1 = Some (7, ch1) \<and> ic_channel impl2 = Some (8, ch2) \<and> (can_send ''p1'' ch1 \<longleftrightarrow> can_recv ''p0'' ch2)"
proof -
  obtain impl1 where c1: "CreateIoChannel pair_platform example_env 7 ''p0'' ''pair'' IoChannelImpl_new = Ok (7, impl1)"
    using pair_created [OF pair_starts(1)] by blast
  obtain impl2 where c2: "CreateIoChannel pair_platform example_env 8 ''p1'' ''pair'' IoChannelImpl_new = Ok (8, impl2)"
    using pair_created [OF pair_starts(2)] by blast
  then show ?thesis using channels_connect [OF pair_build pair_build refl refl refl pair_loaded pair_millis c1 c2] c1 c2 by simp
qed

theorem GetPolicy_exact_witness:
  "GetPolicy pair_platform ''pair'' = Ok (''{'' @ [CHR 0x22] @ ''p0'' @ [CHR 0x22] @ '':['' @
     [CHR 0x22] @ ''p1'' @ [CHR 0x22] @ ''],'' @ [CHR 0x22] @ ''p1'' @ [CHR 0x22] @ '':[]}'')"
proof -
  have t: "task_nodes pair_cfg = [''p0'', ''p1'']" and p: "map_policy pair_cfg = [(''p0'', [''p1''])]" by code_simp+
  have d: "''p1'' \<in> declared pair_cfg" by code_simp
  have "answerable pair_cfg ''p0''" "answerable pair_cfg ''p1''" "node_servers pair_cfg ''p1'' = {}"
    using p d by (auto simp: answerable_def policy_servers_def policy_clients_def node_servers_def)
  then show ?thesis
    using GetPolicy_exact [OF pair_loaded [of "''''"]] t pair_sets(1) by (simp add: policy_text_def row_text_def)
qed


theorem recv_padded_witness:
  "\<exists>impl ch io c str impl'. ic_channel impl = Some (7, ch) \<and> tc_net_io ch = Some io \<and> io_client_conn_map io ''p0'' = Some c \<and>
    impl_Recv pair_platform ''p0'' 3 0 [] impl = Ok (str, impl') \<and> str = [Some 9, Some 8, Some 0]"
proof -
  let ?c = "conn_write_q '''' [9, 8] (SetRecvTimeOut 5 (conn_new ''p0''))"
  let ?io = "(BasicIO example_info [] [''p0''])\<lparr>io_client_conn_map := [''p0'' \<mapsto> ?c]\<rparr> :: (byte list list, unit) BasicIO"
  let ?ch = "TcpChannel ?io ChannelConfig_new example_info"
  let ?impl = "\<lparr>ic_channel = Some (7, ?ch)\<rparr>"
  have c: "ic_channel ?impl = Some (7, ?ch)" "tc_net_io ?ch = Some ?io" "io_client_conn_map ?io (c_str ''p0'') = Some ?c"
      "recv_timeout ?c = Some 5" "pf_recv pair_platform = conn_recv_q" "queued ?c '''' = [[9, 8]]" "c_str ''p0'' = ''p0''"
    by (simp_all add: TcpChannel_def c_str_def SetRecvTimeOut_def pair_platform_def pair_with_def conn_write_q_queued) (simp add: queued_def conn_new_def)
  have "\<exists>str impl'. impl_Recv pair_platform ''p0'' 3 0 [] ?impl = Ok (str, impl')"
    unfolding impl_Recv_known [OF c(1-3)] c(5) using c(4,6)
    by (simp add: conn_recv_q_def conn_try_q_cases pair_platform_def pair_with_def)
  then obtain str impl' where r: "impl_Recv pair_platform ''p0'' 3 0 [] ?impl = Ok (str, impl')" by blast
  have "str = [Some 9, Some 8, Some 0]"
    using recv_padded [OF c(1-5) r] c(6) by (auto simp: numeral_eq_Suc)
  then show ?thesis using c(1-3,7) r by metis
qed

end
