(* ===== verification/Stream_Delivery.thy ===== *)
theory Stream_Delivery
  imports Io_Channel
begin

text \<open>
  The build \<open>USE_BUFFER\<close> from end to end. A connection then stores bytes in ring buffers and keeps no
  message boundaries: what one node sends is appended to a stream of bytes, and the other node
  receives from its front as many bytes as it asks for.
\<close>

section \<open>The stream of a peer\<close>

definition stream :: "string \<Rightarrow> string \<Rightarrow> (cycle_buffer, 'p) IoChannelImpl \<Rightarrow> byte list" where
  "stream n msg impl =
     (case ic_channel impl of
        None \<Rightarrow> []
      | Some (_, ch) \<Rightarrow>
          (case tc_net_io ch of
             None \<Rightarrow> []
           | Some io \<Rightarrow> (case io_client_conn_map io n of None \<Rightarrow> [] | Some c \<Rightarrow> buffered c msg)))"

text \<open>The ring buffers of a peer's connection are well-formed.\<close>

definition stream_ok :: "string \<Rightarrow> (cycle_buffer, 'p) IoChannelImpl \<Rightarrow> bool" where
  "stream_ok n impl =
     (case ic_channel impl of
        None \<Rightarrow> True
      | Some (_, ch) \<Rightarrow>
          (case tc_net_io ch of
             None \<Rightarrow> True
           | Some io \<Rightarrow> (case io_client_conn_map io n of None \<Rightarrow> True | Some c \<Rightarrow> conn_ok c)))"

lemma stream_channel:
  assumes "ic_channel impl = Some (this, ch)" "tc_net_io ch = Some io" "io_client_conn_map io n = Some c"
  shows "stream n msg impl = buffered c msg" "stream_ok n impl \<longleftrightarrow> conn_ok c"
  using assms by (simp_all add: stream_def stream_ok_def)

text \<open>Repeated writes append, as long as the buffer may grow.\<close>

lemma write_b_fold:
  assumes "conn_ok c" "length (buffered c m) + length xs * length d \<le> cb_bound"
  shows "\<exists>c'. res_fold (\<lambda>_. conn_write_b now m d) xs c = Ok c' \<and> conn_ok c' \<and>
    buffered c' = (buffered c)(m := buffered c m @ concat (replicate (length xs) d)) \<and> recv_timeout c' = recv_timeout c"
  using assms
proof (induction xs arbitrary: c)
  case (Cons x xs)
  obtain c1 where c1: "conn_write_b now m d c = Ok c1" "conn_ok c1" "buffered c1 = (buffered c)(m := buffered c m @ d)"
    using conn_write_b_buffered [OF Cons.prems(1), of m d now] Cons.prems(2) by auto
  have "length (buffered c1 m) + length xs * length d \<le> cb_bound" using Cons.prems(2) c1(3) by simp
  from Cons.IH [OF c1(2) this] show ?case using c1 conn_write_b_timeout [OF c1(1)] by (auto simp: fun_eq_iff)
qed simp

text \<open>Bytes that are there are received at once.\<close>

lemma recv_stream:
  assumes "ic_channel impl = Some (this, ch)" "tc_net_io ch = Some io" "io_client_conn_map io n = Some c" "c_str n = n"
    "recv_timeout c = Some t" "conn_ok c" "0 < k" "k \<le> length (buffered c '''')" "k < 2 ^ 31"
    "pf_recv pf = conn_recv_b now" "pf_string pf (int k) = Ok ()"
  shows "\<exists>impl'. impl_Recv pf n (int k) beg ws impl = Ok (map Some (take k (buffered c '''')), impl') \<and>
    stream n '''' impl' = drop k (buffered c '''') \<and> stream_ok n impl'"
proof -
  have "to_i32 (int k) = int k" using assms(9) by (simp add: i32_ok_def)
  then obtain c' where "conn_try_b now '''' (int k) (replicate k (Some 0)) c = Ok (Some (int k, map Some (take k (buffered c '''')), c'))"
      "conn_ok c'" "buffered c' = (buffered c)('''' := drop k (buffered c ''''))"
    using conn_try_b_cases(2) [OF assms(6), of "int k" k "replicate k (Some 0)" "''''" now] assms(7,8) by fastforce
  then have "conn_recv_b now '''' (int k) (replicate k (Some 0)) beg ws c = Ok (int k, map Some (take k (buffered c '''')), c')"
      "conn_ok c'" "buffered c' '''' = drop k (buffered c '''')"
    using assms(5) by (cases ws; simp add: conn_recv_b_def)+
  then show ?thesis
    using impl_Recv_known [OF assms(1,2), of n c pf "int k" beg ws] assms(3,4,10,11) by (simp add: stream_def stream_ok_def)
qed

section \<open>From node to node\<close>

text \<open>
  C2. What is sent is received, with ring buffers. Two nodes create their channels from the same
  document, the receiver with ring buffers. When \<open>Send\<close> of the first returns, the stream of the
  second has grown by the data, once for every call its servant executed and at least once; and
  \<open>Recv\<close> of any number of bytes that are there returns the first ones, whatever messages they
  came in and whatever the clock does, and leaves the rest.
\<close>

theorem stream_delivered:
  assumes "conn_build (pf_recv pf) (pf_wr pf)" "pf_recv pf' = conn_recv_b u" "pf_wr pf' = conn_write_b u"
    "pf_files pf' doc = pf_files pf doc" "pf_parser pf' = pf_parser pf" "pf_gm pf' = pf_gm pf"
    "ChannelConfig_of (pf_files pf) (pf_parser pf) (pf_gm pf) i doc = Ok cfg" "millis (send_timeout cfg) = Ok t"
    "api_create_channel pf env a i doc impl = Ok (p, impl1 :: ('b, 'p) IoChannelImpl)"
    "api_create_channel pf' env' b j doc impl' = Ok (q, impl2)" "i \<noteq> j" "c_str i = i" "c_str j = j"
    "api_Send j data now as impl1 = (n, Ok len)" "\<And>a. a \<in> set as \<Longrightarrow> \<not> at_failed a \<Longrightarrow> at_executed a"
    "ice_codec k" "length i < 2 ^ 31" "length data < 2 ^ 31" "length (sent_params k i '''' data) < 2 ^ 31"
    "stream_ok i impl2" "length (stream i '''' impl2) + n * length data \<le> cb_bound" 
    "\<And>l. l \<le> cb_bound \<Longrightarrow> pf_string pf' (int l) = Ok ()"
  shows "\<exists>m impl3. impl3 = served (conn_write_b u) k (sent_params k i '''' data) (take n as) impl2 \<and> 0 < m \<and>
    len = int (length data) \<and> stream_ok i impl3 \<and> stream i '''' impl3 = stream i '''' impl2 @ concat (replicate m data) \<and>
    (\<forall>l \<in> {0<..length (stream i '''' impl3)}. \<exists>impl4. api_Recv pf' i (int l) beg ws impl3 =
      Ok (map Some (take l (stream i '''' impl3)), impl4) \<and> stream i '''' impl4 = drop l (stream i '''' impl3))"
proof -
  note created = assms(9,10) [unfolded api_defs] and sent = assms(14) [unfolded api_defs]
  have build: "conn_build (pf_recv pf') (pf_wr pf')" using assms(2,3) br.conn_build_axioms by simp
  obtain client :: "'p BaseClient" and ch io c where s: "client_send i j data now as client = (n, Ok len)"
      "ic_channel impl2 = Some (b, ch)" "tc_net_io ch = Some io" "io_client_conn_map io i = Some c" "recv_timeout c = Some t"
    by (rule send_finds_peer [OF assms(1) build assms(4-8) created assms(11) sent assms(13)])
  let ?xs = "filter at_executed (take n as)"
  let ?impl = "served (conn_write_b u) k (sent_params k i '''' data) (take n as) impl2"
  have l: "0 < n" "n \<le> length as" "\<not> at_failed (as ! (n - 1))" "len = int (length data)" using client_send_Ok [OF s(1)] by simp_all
  then have m: "0 < length ?xs" using executed_last [OF l(1,2)] assms(15) [of "as ! (n - 1)"] by simp
  have c: "stream i '''' impl2 = buffered c ''''" "conn_ok c" using stream_channel [OF s(2-4)] assms(20) by simp_all
  have "length ?xs * length data \<le> n * length data" by (intro mult_le_mono1 order_trans [OF length_filter_le]) simp
  then have room: "length (buffered c '''') + length ?xs * length data \<le> cb_bound" using assms(21) unfolding c(1) by linarith
  obtain c' where c': "res_fold (\<lambda>_. conn_write_b u '''' data) ?xs c = Ok c'" "conn_ok c'"
      "buffered c' '''' = buffered c '''' @ concat (replicate (length ?xs) data)" "recv_timeout c' = Some t"
    using write_b_fold [OF c(2) room] s(5) by force
  let ?io = "io\<lparr>io_client_conn_map := (io_client_conn_map io)(i \<mapsto> c')\<rparr>"
  have r: "ic_channel ?impl = Some (b, ch\<lparr>tc_net_io := Some ?io\<rparr>)"
    by (rule served_channel [where wr = "conn_write_b u", OF assms(16,17) _ assms(18,19) s(2-4) c'(1)]) simp
  then have q: "stream i '''' ?impl = buffered c' ''''" "stream_ok i ?impl" using c'(2) by (simp_all add: stream_def stream_ok_def)
  have bound: "length (buffered c' '''') \<le> cb_bound" using room c'(3) by (simp add: length_concat sum_list_replicate)
  have "\<exists>impl4. api_Recv pf' i (int l) beg ws ?impl = Ok (map Some (take l (stream i '''' ?impl)), impl4) \<and>
      stream i '''' impl4 = drop l (stream i '''' ?impl)" if "l \<in> {0<..length (stream i '''' ?impl)}" for l
  proof -
    have "0 < l" "l \<le> length (buffered c' '''')" "l < 2 ^ 31" "pf_string pf' (int l) = Ok ()"
      using that bound q(1) assms(22) [of l] by (auto simp: cb_bound_def)
    then show ?thesis
      using recv_stream [OF r, of ?io i c' t l pf' u beg ws] assms(2,12) c'(2,4) q(1) by (auto simp: api_defs)
  qed
  then show ?thesis using m l(4) q c(1) c'(3) by auto
qed

text \<open>Two nodes whose receiver has ring buffers of the default size.\<close>

definition ring_platform :: "(cycle_buffer, unit) platform" where
  "ring_platform = pair_with True (conn_recv_b 0) (conn_write_b 0)"

lemma ring_start: "pair_start TYPE(cycle_buffer) True ''p1''"
  by code_simp

lemma ring_created:
  "\<exists>impl'. CreateIoChannel ring_platform example_env this ''p1'' ''pair'' impl = Ok (this, impl') \<and>
    stream_ok n impl' \<and> stream n '''' impl' = []"
proof -
  obtain impl' ch io cfg where c: "CreateIoChannel ring_platform example_env this ''p1'' ''pair'' impl = Ok (this, impl')"
      "ic_channel impl' = Some (this, ch)" "tc_net_io ch = Some io" "buffer_size cfg = 8192"
      "\<forall>m. io_client_conn_map io m = None \<or> io_client_conn_map io m = Some (new_conn True cfg 5000 m)"
    by (rule pair_with_created [OF ring_start, where recv = "conn_recv_b 0" and wr = "conn_write_b 0" and this = this and impl = impl,
        folded ring_platform_def])
  have "conn_buffer_size (new_conn True cfg 5000 n :: cycle_buffer ClientConnection) = 8192"
    using c(4) by (simp add: new_conn_def SetRecvTimeOut_def SetBufferSize_def)
  then have "conn_ok (new_conn True cfg 5000 n)" by (simp add: conn_ok_def)
  then show ?thesis
    using c(1-3) spec [OF c(5), of n] by (auto simp: stream_def stream_ok_def buffered_def)
qed

theorem stream_delivered_witness:
  "\<exists>impl1 impl2 impl4. api_create_channel pair_platform example_env 7 ''p0'' ''pair'' IoChannelImpl_new = Ok (7, impl1) \<and>
    api_create_channel ring_platform example_env 8 ''p1'' ''pair'' IoChannelImpl_new = Ok (8, impl2) \<and>
    api_Send ''p1'' [5, 6] 0 example_attempts impl1 = (2, Ok 2) \<and>
    api_Recv ring_platform ''p0'' 1 0 []
      (served (conn_write_b 0) standard_codec (sent_params standard_codec ''p0'' '''' [5, 6]) (take 2 example_attempts) impl2) = Ok ([Some 5], impl4)"
proof -
  obtain impl1 where 1: "api_create_channel pair_platform example_env 7 ''p0'' ''pair'' IoChannelImpl_new = Ok (7, impl1)"
      "api_Send ''p1'' [5, 6] 0 example_attempts impl1 = (2, Ok 2)"
    using pair_sent by blast
  obtain impl2 where 2: "api_create_channel ring_platform example_env 8 ''p1'' ''pair'' IoChannelImpl_new = Ok (8, impl2)"
      "stream_ok ''p0'' impl2" "stream ''p0'' '''' impl2 = []"
    using ring_created [of 8 IoChannelImpl_new "''p0''"] by (auto simp: api_defs)
  let ?impl = "served (conn_write_b 0) standard_codec (sent_params standard_codec ''p0'' '''' [5, 6]) (take 2 example_attempts) impl2"
  have pf: "pf_recv ring_platform = conn_recv_b 0" "pf_wr ring_platform = conn_write_b 0" "pf_string ring_platform l = Ok ()"
      "pf_files ring_platform d = pf_files pair_platform d" "pf_parser ring_platform = pf_parser pair_platform"
      "pf_gm ring_platform = pf_gm pair_platform" for l d
    by (simp_all add: ring_platform_def pair_platform_def pair_with_def)
  have "\<exists>m impl3. impl3 = ?impl \<and> 0 < m \<and> (2 :: int) = int (length [5, 6 :: byte]) \<and> stream_ok ''p0'' impl3 \<and>
    stream ''p0'' '''' impl3 = stream ''p0'' '''' impl2 @ concat (replicate m [5, 6]) \<and>
    (\<forall>l \<in> {0<..length (stream ''p0'' '''' impl3)}. \<exists>impl4. api_Recv ring_platform ''p0'' (int l) 0 [] impl3 =
      Ok (map Some (take l (stream ''p0'' '''' impl3)), impl4) \<and> stream ''p0'' '''' impl4 = drop l (stream ''p0'' '''' impl3))"
    by (rule stream_delivered [OF pair_build pf(1,2,4,5,6) pair_loaded pair_millis 1(1) 2(1) _ pair_wire(2,3) 1(2) pair_wire(4)
          std.ice_codec_axioms _ _ pair_wire(1) 2(2)]) (simp_all add: 2(3) cb_bound_def pf(3))
  then obtain m where m: "0 < m" "stream ''p0'' '''' ?impl = stream ''p0'' '''' impl2 @ concat (replicate m [5, 6])"
      "\<forall>l \<in> {0<..length (stream ''p0'' '''' ?impl)}. \<exists>impl4. api_Recv ring_platform ''p0'' (int l) 0 [] ?impl =
        Ok (map Some (take l (stream ''p0'' '''' ?impl)), impl4) \<and> stream ''p0'' '''' impl4 = drop l (stream ''p0'' '''' ?impl)"
    by (elim exE conjE) simp
  then have "stream ''p0'' '''' ?impl = 5 # 6 # concat (replicate (m - 1) [5, 6])" using 2(3) by (cases m) simp_all
  then have "\<exists>impl4. api_Recv ring_platform ''p0'' 1 0 [] ?impl = Ok ([Some 5], impl4)" using bspec [OF m(3), of 1] by auto
  then show ?thesis using 1 2(1) by blast
qed

end
