(* ===== verification/Async_Server.thy ===== *)
theory Async_Server
  imports Endpoints Io_Servant
begin

text \<open>
  \<^verbatim>\<open>core/include/async_server.h\<close> and \<^verbatim>\<open>core/src/async_server.cc\<close>: the server of the build \<open>ASYNC_SERVER\<close>,
  which has one work queue for every client of the node. Its servant (\<open>servant_send_async\<close>) hands
  a request to the queue of its sender; every queue has its own thread. A state of the running
  server is the map of its queues, and any of them may make the next step.
\<close>

section \<open>Construction and destruction\<close>

record AsyncServer =
  as_props :: ice_properties
  as_identity :: string
  map_noide_to_wq :: "string \<rightharpoonup> WorkQueue"

text \<open>\<open>start()\<close> of the thread of a work queue.\<close>

definition wq_start :: "WorkQueue \<Rightarrow> WorkQueue" where
  "wq_start q = q\<lparr>wq_worker := Starting\<rparr>"

text \<open>
  \<open>add\<close> and \<open>activate\<close> are the calls of the object adapter. A failure is reported after the base
  class has been built, whatever the queues have been doing by then.
\<close>

definition AsyncServer ::
    "(ice_properties \<Rightarrow> unit res) \<Rightarrow> (string \<Rightarrow> unit res) \<Rightarrow> unit res \<Rightarrow> NodeInfo \<Rightarrow> string
     \<Rightarrow> (string \<rightharpoonup> byte list list ClientConnection) \<Rightarrow> AsyncServer res" where
  "AsyncServer init add activate info taskId conns =
     res_bind (BaseServer init info taskId) (\<lambda>props.
     let wqs = (\<lambda>n. map_option wq_new (conns n));
         name = servant_identity taskId (ni_id info) in
     catch_ice
       (res_bind (add name) (\<lambda>_.
        let wqs = (\<lambda>n. map_option wq_start (wqs n)) in
        res_bind activate (\<lambda>_.
        Ok \<lparr>as_props = props, as_identity = name, map_noide_to_wq = wqs\<rparr>)))
       (\<lambda>w. HANDLE_EXCEPTION_EVENT C_EVENT_CODE_START_SERVICE taskId [StrArg (ni_id info), StrArg w]))"

text \<open>The destructor tells every queue to end; its caller needs the lock of each for that.\<close>

definition async_destroy :: "AsyncServer \<Rightarrow> AsyncServer" where
  "async_destroy s = s\<lparr>map_noide_to_wq := (\<lambda>n. map_option wq_destroy (map_noide_to_wq s n))\<rparr>"

section \<open>The running server\<close>

text \<open>
  A step, with the node it concerns and its events: a request arrives for the servant; a worker
  goes on; the destructor reaches a queue; a receiver takes a message; a wait ends by itself.
\<close>

inductive async_step :: "(string \<rightharpoonup> WorkQueue) \<Rightarrow> string \<Rightarrow> wq_event list \<Rightarrow> (string \<rightharpoonup> WorkQueue) \<Rightarrow> bool" where
  Serve: "(\<And>q. wqs n = Some q \<Longrightarrow> wq_worker q \<noteq> Looping) \<Longrightarrow> servant_send_async cb n msgid data wqs = (evs, wqs') \<Longrightarrow>
    async_step wqs n (Request cb # evs) wqs'"
| Run: "wqs n = Some q \<Longrightarrow> wq_work q = Some (evs, q') \<Longrightarrow> async_step wqs n evs (wqs(n \<mapsto> q'))"
| Close: "wqs n = Some q \<Longrightarrow> wq_worker q \<noteq> Looping \<Longrightarrow> async_step wqs n [] (wqs(n \<mapsto> wq_destroy q))"
| Fetch: "wqs n = Some q \<Longrightarrow> conn_try_q m mem (wq_conn q) = Ok (Some (k, mem', c')) \<Longrightarrow>
    async_step wqs n [] (wqs(n \<mapsto> q\<lparr>wq_conn := c'\<rparr>))"
| Wake: "wqs n = Some q \<Longrightarrow> wq_worker q = Waiting \<Longrightarrow> async_step wqs n [] (wqs(n \<mapsto> q\<lparr>wq_worker := Woken\<rparr>))"

text \<open>A history: the events of each step with the node it concerned.\<close>

inductive async_trace :: "(string \<rightharpoonup> WorkQueue) \<Rightarrow> (string \<times> wq_event list) list \<Rightarrow> (string \<rightharpoonup> WorkQueue) \<Rightarrow> bool" where
  Async_refl: "async_trace wqs [] wqs"
| Async_step: "async_trace wqs h wqs1 \<Longrightarrow> async_step wqs1 n evs wqs2 \<Longrightarrow> async_trace wqs (h @ [(n, evs)]) wqs2"

definition events_of :: "string \<Rightarrow> (string \<times> wq_event list) list \<Rightarrow> wq_event list" where
  "events_of n h = concat (map snd (filter (\<lambda>(m, _). m = n) h))"

lemma events_of_append: "events_of n (h @ [(m, evs)]) = (if m = n then events_of n h @ evs else events_of n h)"
  by (simp add: events_of_def)

text \<open>A step concerns one queue only, and is a step of that queue; without a queue nothing happens.\<close>

lemma async_step_local:
  assumes "async_step wqs n evs wqs'"
  shows "case wqs n of
      None \<Rightarrow> wqs' = wqs \<and> answers evs = []
    | Some q \<Rightarrow> \<exists>q'. wq_step q evs q' \<and> wqs' = wqs(n \<mapsto> q')"
  using assms
proof cases
  case (Serve cb msgid data evs')
  show ?thesis
  proof (cases "wqs n")
    case None
    then show ?thesis using Serve by (simp add: servant_send_async_def answers_def)
  next
    case (Some q)
    obtain evs1 q1 where a: "wq_add cb msgid data q = (evs1, q1)" by fastforce
    have "wq_step q (Request cb # evs1) q1" by (rule Add [OF Serve(2) [OF Some] a])
    then show ?thesis using Serve(1,3) Some a by (auto simp: servant_send_async_def)
  qed
next
  case (Run q q')
  then show ?thesis by (auto intro: wq_step.Work)
next
  case (Close q)
  then show ?thesis by (auto intro: wq_step.Destroy)
next
  case (Fetch q m mem k mem' c')
  then show ?thesis by (auto intro: wq_step.Take)
next
  case (Wake q)
  then show ?thesis by (auto intro: wq_step.Spurious)
qed

lemma async_trace_local:
  assumes "async_trace wqs h wqs'"
  shows "case wqs n of
      None \<Rightarrow> wqs' n = None \<and> answers (events_of n h) = []
    | Some q \<Rightarrow> \<exists>q'. wqs' n = Some q' \<and> wq_trace q (events_of n h) q'"
  using assms
proof (induction rule: async_trace.induct)
  case (Async_refl wqs)
  then show ?case by (auto simp: events_of_def answers_def intro: Trace_refl split: option.split)
next
  case (Async_step wqs h wqs1 m evs wqs2)
  show ?case
  proof (cases "m = n")
    case True
    then show ?thesis
      using Async_step.IH async_step_local [OF Async_step.hyps(2)]
      by (auto simp: events_of_append history_append intro: Trace_step split: option.splits)
  next
    case False
    then have "wqs2 n = wqs1 n"
      using async_step_local [OF Async_step.hyps(2)] by (auto split: option.splits)
    then show ?thesis using Async_step.IH False by (cases "wqs n") (simp_all add: events_of_append)
  qed
qed

text \<open>
  C40. The asynchronous server is the sum of its queues. After the constructor, in every history
  of requests, workers, receivers and the destructor, each node that is a client of this one has
  its own queue: its requests are answered exactly once and in order, whatever the others do, and
  what has been accepted from it is what has been stored in its connection followed by what is
  pending. A request of any other node is never answered.
\<close>

theorem async_server_serves:
  assumes "AsyncServer init add activate info taskId conns = Ok s" "async_trace (map_noide_to_wq s) h wqs"
  shows "if n \<in> dom conns then
      \<exists>q. wqs n = Some q \<and> answers (events_of n h) = requests (events_of n h) \<and>
        (\<not> wq_done q \<longrightarrow> enqueued (events_of n h) = stored (events_of n h) @ pending_entries q)
    else answers (events_of n h) = [] \<and> wqs n = None"
proof -
  have s: "map_noide_to_wq s = (\<lambda>n. map_option wq_start (map_option wq_new (conns n)))"
    using assms(1) by (auto simp: AsyncServer_def Let_def res_bind_Ok_iff dest!: catch_ice_Ok)
  note l = async_trace_local [OF assms(2), of n]
  show ?thesis
  proof (cases "conns n")
    case None
    then show ?thesis using l by (simp add: s dom_def)
  next
    case (Some c)
    then obtain q where q: "wqs n = Some q" "wq_trace (wq_start (wq_new c)) (events_of n h) q" using l by (auto simp: s)
    have "wq_ok (wq_start (wq_new c))" "pending_entries (wq_start (wq_new c)) = []"
      by (simp_all add: wq_start_def wq_new_def wq_ok_def pending_entries_def)
    then show ?thesis using Some q wq_trace_answers [OF q(2)] wq_trace_fifo [OF q(2)] by (simp add: domI)
  qed
qed

text \<open>Example: a client \<open>p0\<close> and a stranger \<open>px\<close>; both send, the client's data is stored.\<close>

definition example_async :: "AsyncServer res" where
  "example_async = AsyncServer (\<lambda>_. Ok ()) (\<lambda>_. Ok ()) (Ok ()) example_info ''t1'' [''p0'' \<mapsto> conn_new ''p0'']"

lemma example_async_ok: "\<exists>s. example_async = Ok s \<and> map_noide_to_wq s = [''p0'' \<mapsto> wq_start (wq_new (conn_new ''p0''))]"
proof -
  have "case BaseServer (\<lambda>_. Ok ()) example_info ''t1'' of Ok _ \<Rightarrow> True | _ \<Rightarrow> False" by code_simp
  then show ?thesis by (auto simp: example_async_def AsyncServer_def catch_ice_def fun_eq_iff split: res.splits)
qed

theorem async_server_serves_witness:
  "\<exists>s wqs q. example_async = Ok s \<and>
    async_trace (map_noide_to_wq s) [(''p0'', [Request 3, IceResponse 3 0, Enqueued ''m'' [1]]), (''px'', [Request 4])] wqs \<and>
    wqs ''p0'' = Some q \<and> pending_entries q = [(''m'', [1])] \<and>
    answers (events_of ''px'' [(''p0'', [Request 3, IceResponse 3 0, Enqueued ''m'' [1]]), (''px'', [Request 4])]) = []"
proof -
  obtain s where s: "example_async = Ok s" "map_noide_to_wq s = [''p0'' \<mapsto> wq_start (wq_new (conn_new ''p0''))]"
    using example_async_ok by blast
  let ?h = "[(''p0'', [Request 3, IceResponse 3 0, Enqueued ''m'' [1]]), (''px'', [Request 4])]"
  obtain q where q: "wq_add 3 ''m'' [1] (wq_start (wq_new (conn_new ''p0''))) = ([IceResponse 3 0, Enqueued ''m'' [1]], q)" "\<not> wq_done q"
    by (simp add: wq_add_def wq_start_def wq_new_def monitor_notify_def)
  have "servant_send_async 3 ''p0'' ''m'' [1] (map_noide_to_wq s) = ([IceResponse 3 0, Enqueued ''m'' [1]], [''p0'' \<mapsto> q])"
    using q(1) by (simp add: servant_send_async_def s(2))
  then have 1: "async_step (map_noide_to_wq s) ''p0'' [Request 3, IceResponse 3 0, Enqueued ''m'' [1]] [''p0'' \<mapsto> q]"
    by (rule async_step.Serve [rotated]) (auto simp: s(2) wq_start_def split: if_splits)
  have 2: "async_step [''p0'' \<mapsto> q] ''px'' [Request 4] [''p0'' \<mapsto> q]"
    by (rule async_step.Serve [where data = "[]" and msgid = "''m''"]) (simp_all add: servant_send_async_def)
  have t: "async_trace (map_noide_to_wq s) ?h [''p0'' \<mapsto> q]"
    using async_trace.Async_step [OF async_trace.Async_step [OF async_trace.Async_refl 1] 2] by simp
  have "pending_entries q = [(''m'', [1])]"
    using async_server_serves [OF s(1) [unfolded example_async_def] t, of "''p0''"] q(2)
    by (simp add: events_of_def enqueued_def stored_def)
  moreover have "answers (events_of ''px'' ?h) = []"
    using async_server_serves [OF s(1) [unfolded example_async_def] t, of "''px''"] by simp
  ultimately show ?thesis
    using s(1) t by (intro exI [of _ s] exI [of _ "[''p0'' \<mapsto> q]"] exI [of _ q] conjI) simp_all
qed

end
