(* ===== verification/Teardown.thy ===== *)
theory Teardown
  imports Async_Server
begin

text \<open>
  How a node stops: \<open>close\<close> and \<open>wait\<close> of the servers (\<^verbatim>\<open>core/include/base_server.h\<close>,
  \<^verbatim>\<open>core/src/sync_server.cc\<close>, \<^verbatim>\<open>core/src/async_server.cc\<close>), the destructors of servers and clients, and the
  destruction of a \<open>BasicIO\<close> (\<^verbatim>\<open>core/include/net_io.h\<close>), whose members C++ destroys in the reverse order of
  their declaration. The communicator is an object of libIce: its operations are a parameter, and the
  locale \<open>communicator\<close> states what Ice documents about them.
\<close>

section \<open>Communicators\<close>

record 'k comm_lib =
  cl_destroy :: "'k \<Rightarrow> unit res \<times> 'k"
  cl_shutdown :: "'k \<Rightarrow> unit res \<times> 'k"
  cl_waitForShutdown :: "'k \<Rightarrow> unit res"

text \<open>\<open>BaseServer::close\<close>: an Ice exception is printed and forgotten.\<close>

definition server_close :: "'k comm_lib \<Rightarrow> 'k option \<Rightarrow> bool res \<times> 'k option" where
  "server_close lib comm =
     (case comm of
        None \<Rightarrow> (Ok True, None)
      | Some k \<Rightarrow>
          let (r, k) = (case cl_destroy lib k of
                          (Ok _, k) \<Rightarrow> cl_shutdown lib k
                        | (r, k) \<Rightarrow> (r, k)) in
          (res_bind (catch_ice r (\<lambda>_. Ok ())) (\<lambda>_. Ok True), Some k))"

definition server_wait :: "'k comm_lib \<Rightarrow> 'k option \<Rightarrow> bool res" where
  "server_wait lib comm =
     (case comm of None \<Rightarrow> Ok True | Some k \<Rightarrow> res_bind (cl_waitForShutdown lib k) (\<lambda>_. Ok True))"

text \<open>An exception that leaves a destructor ends the program.\<close>

definition in_destructor :: "'a res \<Rightarrow> 'a res" where
  "in_destructor r = (case r of Throw _ \<Rightarrow> Throw (Undefined ''terminate'') | _ \<Rightarrow> r)"

definition delete_BaseClient :: "'k comm_lib \<Rightarrow> 'k option \<Rightarrow> 'k option res" where
  "delete_BaseClient lib comm =
     (case comm of
        None \<Rightarrow> Ok None
      | Some k \<Rightarrow> let (r, k) = cl_shutdown lib k in in_destructor (res_bind r (\<lambda>_. Ok (Some k))))"

section \<open>The members of a BasicIO\<close>

text \<open>
  What is left of a network while it is destroyed: the server with its queues (none in the
  synchronous build), the communicator it had, the connections, the communicators of the clients.
\<close>

record 'k net =
  nt_server :: bool
  nt_queues :: "string \<rightharpoonup> WorkQueue"
  nt_comm :: "'k option"
  nt_conns :: bool
  nt_clients :: "'k option list"

datatype io_member = M_node_info | M_remote_server_infos | M_client_nodeids | M_client_obj_map | M_client_conn_map
  | M_handler | M_server

definition BasicIO_members :: "io_member list" where
  "BasicIO_members = [M_node_info, M_remote_server_infos, M_client_nodeids, M_client_obj_map, M_client_conn_map, M_handler, M_server]"

text \<open>The destructors of the servers: \<open>~AsyncServer\<close> ends its queues first; then both close.\<close>

definition delete_server :: "'k comm_lib \<Rightarrow> 'k net \<Rightarrow> 'k net res" where
  "delete_server lib s =
     (let qs = (\<lambda>n. map_option wq_destroy (nt_queues s n));
          (r, comm) = server_close lib (nt_comm s) in
      in_destructor (res_bind r (\<lambda>_. Ok (s\<lparr>nt_server := False, nt_queues := qs, nt_comm := comm\<rparr>))))"

fun res_all :: "('a \<Rightarrow> 'b res) \<Rightarrow> 'a list \<Rightarrow> 'b list res" where
  "res_all f [] = Ok []"
| "res_all f (x # xs) = res_bind (f x) (\<lambda>y. res_bind (res_all f xs) (\<lambda>ys. Ok (y # ys)))"

definition delete_member :: "'k comm_lib \<Rightarrow> io_member \<Rightarrow> 'k net \<Rightarrow> 'k net res" where
  "delete_member lib m s =
     (case m of
        M_server \<Rightarrow> if nt_server s then delete_server lib s else Ok s
      | M_client_conn_map \<Rightarrow> Ok (s\<lparr>nt_conns := False\<rparr>)
      | M_client_obj_map \<Rightarrow> res_bind (res_all (delete_BaseClient lib) (nt_clients s)) (\<lambda>cs. Ok (s\<lparr>nt_clients := cs\<rparr>))
      | _ \<Rightarrow> Ok s)"

definition delete_BasicIO :: "'k comm_lib \<Rightarrow> 'k net \<Rightarrow> 'k net res" where
  "delete_BasicIO lib s = res_fold (delete_member lib) (rev BasicIO_members) s"

section \<open>The contract of a communicator\<close>

text \<open>
  \<open>stopped\<close>: no call is dispatched any more. \<open>destroy\<close> waits for that and does not throw, and so does
  not \<open>shutdown\<close>, except on a communicator that has been destroyed.
\<close>

locale communicator =
  fixes lib :: "'k comm_lib" and stopped :: "'k \<Rightarrow> bool"
  assumes destroy_law: "\<exists>k'. cl_destroy lib k = (Ok (), k') \<and> stopped k'"
    and shutdown_law: "\<exists>r k'. cl_shutdown lib k = (r, k') \<and> (stopped k \<longrightarrow> stopped k') \<and>
      (r = Ok () \<or> stopped k \<and> (\<exists>w. r = Throw (Ice_Exception w)))"
    and wait_law: "cl_waitForShutdown lib k = Ok () \<Longrightarrow> stopped k"
begin

lemma close_stops: "\<exists>c. server_close lib comm = (Ok True, c) \<and> (\<forall>k. c = Some k \<longrightarrow> stopped k)"
proof (cases comm)
  case None
  then show ?thesis by (simp add: server_close_def)
next
  case (Some k)
  obtain k1 where 1: "cl_destroy lib k = (Ok (), k1)" "stopped k1" using destroy_law by blast
  obtain r k2 where 2: "cl_shutdown lib k1 = (r, k2)" "stopped k2" "r = Ok () \<or> (\<exists>w. r = Throw (Ice_Exception w))"
    using shutdown_law 1(2) by blast
  from 2(3) have "catch_ice r (\<lambda>_. Ok ()) = Ok ()" by (auto simp: catch_ice_def)
  then show ?thesis using 1(1) 2(1,2) Some by (simp add: server_close_def)
qed

lemma delete_server_stops:
  "\<exists>c. delete_server lib s = Ok (s\<lparr>nt_server := False, nt_queues := (\<lambda>n. map_option wq_destroy (nt_queues s n)), nt_comm := c\<rparr>) \<and>
    (\<forall>k. c = Some k \<longrightarrow> stopped k)"
  using close_stops [of "nt_comm s"] by (auto simp: delete_server_def in_destructor_def)

lemma clients_shut:
  assumes "\<And>k. Some k \<in> set cs \<Longrightarrow> \<not> stopped k"
  shows "\<exists>cs'. res_all (delete_BaseClient lib) cs = Ok cs' \<and> length cs' = length cs"
  using assms
proof (induction cs)
  case (Cons c cs)
  have "\<exists>c'. delete_BaseClient lib c = Ok c'"
  proof (cases c)
    case (Some k)
    then have "\<not> stopped k" using Cons.prems by simp
    then obtain k' where "cl_shutdown lib k = (Ok (), k')" using shutdown_law [of k] by blast
    then show ?thesis using Some by (simp add: delete_BaseClient_def in_destructor_def)
  qed (simp add: delete_BaseClient_def)
  then show ?case using Cons by auto
qed simp

end

section \<open>Properties\<close>

text \<open>While a network is destroyed its server can be called, until it is gone or its communicator has stopped.\<close>

definition callable :: "('k \<Rightarrow> bool) \<Rightarrow> 'k net \<Rightarrow> bool" where
  "callable stopped s \<longleftrightarrow> nt_server s \<or> (\<exists>k. nt_comm s = Some k \<and> \<not> stopped k)"

lemma wq_destroy_ends [simp]: "wq_done (wq_destroy q)" "wq_callbacks (wq_destroy q) = []"
  by (simp_all add: wq_destroy_def monitor_notify_def)

lemma delete_member_frame:
  assumes "delete_member lib m s = Ok s'" "m \<noteq> M_server"
  shows "nt_server s' = nt_server s \<and> nt_comm s' = nt_comm s \<and> nt_queues s' = nt_queues s"
  using assms by (cases m) (auto simp: delete_member_def res_bind_Ok_iff)

lemma delete_members_frame:
  assumes "res_fold (delete_member lib) ms s = Ok s'" "M_server \<notin> set ms"
  shows "nt_server s' = nt_server s \<and> nt_comm s' = nt_comm s \<and> nt_queues s' = nt_queues s"
  using assms by (induction ms arbitrary: s) (auto simp: res_bind_Ok_iff dest: delete_member_frame)

text \<open>
  C36. A node stops safely. The members of its network are destroyed so that the server goes first:
  at every moment of the destruction either the connections are still there or no call of a peer
  can be dispatched any more, so that the servant never writes to a connection that is gone. The
  destruction returns when the clients are running, and leaves every work queue ended and empty.
\<close>

theorem teardown_safe:
  assumes "communicator lib stopped" "nt_conns s" "nt_server s \<or> nt_comm s = None \<and> nt_queues s = Map.empty"
    "\<And>k. Some k \<in> set (nt_clients s) \<Longrightarrow> \<not> stopped k"
  shows "(\<exists>s'. delete_BasicIO lib s = Ok s' \<and> \<not> callable stopped s' \<and> \<not> nt_conns s' \<and>
      (\<forall>q \<in> ran (nt_queues s'). wq_done q \<and> wq_callbacks q = [])) \<and>
    (\<forall>j s1. res_fold (delete_member lib) (take j (rev BasicIO_members)) s = Ok s1 \<longrightarrow> nt_conns s1 \<or> \<not> callable stopped s1)"
proof -
  let ?ms = "[M_handler, M_client_conn_map, M_client_obj_map, M_client_nodeids, M_remote_server_infos, M_node_info]"
  obtain s0 where s0: "delete_member lib M_server s = Ok s0" "\<not> callable stopped s0" "nt_clients s0 = nt_clients s"
      "\<forall>q \<in> ran (nt_queues s0). wq_done q \<and> wq_callbacks q = []"
  proof (cases "nt_server s")
    case True
    let ?qs = "\<lambda>n. map_option wq_destroy (nt_queues s n)"
    have "\<forall>q \<in> ran ?qs. wq_done q \<and> wq_callbacks q = []" by (auto simp: ran_def)
    moreover obtain c where "delete_server lib s = Ok (s\<lparr>nt_server := False, nt_queues := ?qs, nt_comm := c\<rparr>)" "\<forall>k. c = Some k \<longrightarrow> stopped k"
      using communicator.delete_server_stops [OF assms(1), of s] by blast
    ultimately show thesis
      using that [of "s\<lparr>nt_server := False, nt_queues := ?qs, nt_comm := c\<rparr>"] True by (simp add: delete_member_def callable_def)
  next
    case False
    then show thesis using assms(3) that [of s] by (simp add: delete_member_def callable_def)
  qed
  have "\<exists>cs. res_all (delete_BaseClient lib) (nt_clients s0) = Ok cs"
    using communicator.clients_shut [OF assms(1), of "nt_clients s"] assms(4) s0(3) by auto
  then obtain s' where s': "res_fold (delete_member lib) ?ms s0 = Ok s'" "\<not> nt_conns s'" by (auto simp: delete_member_def)
  have "nt_conns s1 \<or> \<not> callable stopped s1" if "res_fold (delete_member lib) (take j (rev BasicIO_members)) s = Ok s1" for j s1
  proof (cases j)
    case 0
    then show ?thesis using that assms(2) by simp
  next
    case (Suc i)
    then have f: "res_fold (delete_member lib) (take i ?ms) s0 = Ok s1" using that s0(1) by (simp add: BasicIO_members_def)
    moreover have "M_server \<notin> set (take i ?ms)" using set_take_subset [of i ?ms] by auto
    ultimately show ?thesis using s0(2) delete_members_frame [OF f] by (simp add: callable_def)
  qed
  moreover have "delete_BasicIO lib s = Ok s'" using s0(1) s'(1) by (simp add: delete_BasicIO_def BasicIO_members_def)
  ultimately show ?thesis using delete_members_frame [OF s'(1)] s0(2,4) s'(2) by (auto simp: callable_def)
qed

text \<open>A communicator as Ice documents it.\<close>

datatype comm_state = Active | Shut | Destroyed

definition example_comm :: "comm_state comm_lib" where
  "example_comm =
     \<lparr>cl_destroy = (\<lambda>_. (Ok (), Destroyed)),
      cl_shutdown = (\<lambda>k. if k = Destroyed then (Throw (Ice_Exception ''CommunicatorDestroyedException''), k) else (Ok (), Shut)),
      cl_waitForShutdown = (\<lambda>k. if k = Active then Blocks else Ok ())\<rparr>"

interpretation ec: communicator example_comm "\<lambda>k. k \<noteq> Active"
  by unfold_locales (auto simp: example_comm_def)

text \<open>\<open>wait\<close> returns only when nothing is dispatched any more.\<close>

lemma wait_returns: "server_wait example_comm comm = Ok b \<Longrightarrow> comm \<noteq> Some Active"
  using ec.wait_law [of Active] by (auto simp: server_wait_def res_bind_Ok_iff)

theorem teardown_safe_witness:
  "\<exists>s'. delete_BasicIO example_comm
      \<lparr>nt_server = True, nt_queues = [''p0'' \<mapsto> wq_start (wq_new (conn_new ''p0''))], nt_comm = Some Active, nt_conns = True,
       nt_clients = [Some Active]\<rparr> = Ok s' \<and> nt_comm s' \<noteq> Some Active \<and> \<not> nt_conns s'"
proof -
  let ?s = "\<lparr>nt_server = True, nt_queues = [''p0'' \<mapsto> wq_start (wq_new (conn_new ''p0''))], nt_comm = Some Active, nt_conns = True,
       nt_clients = [Some Active]\<rparr>"
  have "(\<exists>s'. delete_BasicIO example_comm ?s = Ok s' \<and> \<not> callable (\<lambda>k. k \<noteq> Active) s' \<and> \<not> nt_conns s' \<and>
      (\<forall>q \<in> ran (nt_queues s'). wq_done q \<and> wq_callbacks q = [])) \<and>
    (\<forall>j s1. res_fold (delete_member example_comm) (take j (rev BasicIO_members)) ?s = Ok s1 \<longrightarrow>
      nt_conns s1 \<or> \<not> callable (\<lambda>k. k \<noteq> Active) s1)"
    by (rule teardown_safe [OF ec.communicator_axioms]) simp_all
  then show ?thesis by (auto simp: callable_def)
qed

end
