(* ===== verification/Ice_Proxy.thy ===== *)
theory Ice_Proxy
  imports Clients
begin

text \<open>
  The client side of the generated code in \<^verbatim>\<open>core/src/io_channel_ice.cpp\<close> and
  \<^verbatim>\<open>core/include/io_channel_ice.h\<close> (C++98 mapping): how a proxy makes a call of \<open>send\<close> and reads its
  answer, how the servant writes that answer, the callback wrappers of asynchronous calls, and
  \<open>SyncClient::send\<close> of the build \<open>STATIC_CALL\<close>, which goes through the proxy. What libIce does with
  a request is a parameter; the locale \<open>ice_transport\<close> states what the proofs need of it.
\<close>

section \<open>The library below the proxy\<close>

text \<open>
  What comes back for a request: the encapsulated results, a user exception (its type), or a
  failure the library reports. An \<open>AsyncResult\<close> without any of them is still waiting.
\<close>

datatype reply = Reply "byte list" | User_reply string | Local_failure string

record AsyncResult =
  ar_operation :: string
  ar_reply :: "reply option"

record 's outgoing =
  og_twoway_only :: "string \<Rightarrow> unit res"
  og_prepare :: "string \<Rightarrow> operation_mode \<Rightarrow> unit res"
  og_invoke :: "string \<Rightarrow> operation_mode \<Rightarrow> byte list \<Rightarrow> 's \<Rightarrow> reply option res \<times> 's"
  og_check :: "AsyncResult \<Rightarrow> string \<Rightarrow> unit res"

section \<open>The proxy\<close>

definition SendDataException_id :: string where
  "SendDataException_id = ''::ChannelSdk::SendDataException''"

text \<open>
  \<open>_iceI_begin_send\<close>: a failure to send is not thrown but kept in the result (\<open>abort\<close>).
\<close>

definition iceI_begin_send ::
    "'s outgoing \<Rightarrow> codec \<Rightarrow> string \<Rightarrow> string \<Rightarrow> byte list \<Rightarrow> 's \<Rightarrow> AsyncResult res \<times> 's" where
  "iceI_begin_send lib k nodeid msgid data s =
     (case og_twoway_only lib ''send'' of
        Throw x \<Rightarrow> (Throw x, s)
      | Blocks \<Rightarrow> (Blocks, s)
      | Ok _ \<Rightarrow>
          (let (r, s) =
             (case og_prepare lib ''send'' Idempotent of
                Throw x \<Rightarrow> (Throw x, s)
              | Blocks \<Rightarrow> (Blocks, s)
              | Ok _ \<Rightarrow> og_invoke lib ''send'' Idempotent (write_send_params k nodeid msgid data) s) in
           (case r of
              Ok a \<Rightarrow> Ok \<lparr>ar_operation = ''send'', ar_reply = a\<rparr>
            | Throw (Ice_Exception w) \<Rightarrow> Ok \<lparr>ar_operation = ''send'', ar_reply = Some (Local_failure w)\<rparr>
            | Throw x \<Rightarrow> Throw x
            | Blocks \<Rightarrow> Blocks, s)))"

text \<open>
  \<open>end_send\<close>: waits for the answer; of the user exceptions only \<open>SendDataException\<close> is thrown as it is.
\<close>

definition end_send :: "'s outgoing \<Rightarrow> codec \<Rightarrow> AsyncResult \<Rightarrow> int res" where
  "end_send lib k result =
     res_bind (og_check lib result ''send'') (\<lambda>_.
     case ar_reply result of
       None \<Rightarrow> Blocks
     | Some (Local_failure w) \<Rightarrow> Throw (Ice_Exception w)
     | Some (User_reply w) \<Rightarrow>
         if w = SendDataException_id then Throw (Ice_Exception SendDataException_id)
         else Throw (Ice_Exception ''UnknownUserException'')
     | Some (Reply b) \<Rightarrow>
         res_bind (in_start_encaps k b) (\<lambda>(e, b).
         res_bind (ice_read_int b) (\<lambda>(ret, b).
         res_bind (in_end_encaps k e b) (\<lambda>_.
         Ok ret))))"

definition proxy_send ::
    "'s outgoing \<Rightarrow> codec \<Rightarrow> string \<Rightarrow> string \<Rightarrow> byte list \<Rightarrow> 's \<Rightarrow> int res \<times> 's" where
  "proxy_send lib k nodeid msgid data s =
     (let (r, s) = iceI_begin_send lib k nodeid msgid data s in (res_bind r (end_send lib k), s))"

section \<open>The answer\<close>

text \<open>
  \<open>ice_response\<close> of the AMD callback: the return value in an encapsulation, in the encoding of the
  request, which \<open>startReadParams\<close> has remembered.
\<close>

definition amd_ice_response :: "codec \<Rightarrow> byte \<times> byte \<Rightarrow> int \<Rightarrow> byte list" where
  "amd_ice_response k encoding ret =
     (let (start, b) = out_start_encaps (k\<lparr>default_encoding := encoding\<rparr>) [] in
      out_end_encaps start (b @ ice_write_int ret))"

definition servant_ice_ids :: "string list" where
  "servant_ice_ids = take 2 iceC_IoChannel_ids"

definition servant_ice_id :: string where
  "servant_ice_id = ''::ChannelSdk::IoChannel''"

section \<open>Callbacks of asynchronous calls\<close>

text \<open>
  A callback wrapper: the cookie it passes on (none for the class without cookies) and which
  methods it has. \<open>check\<close> is the library's check of the constructor's arguments.
\<close>

record 'k send_callback =
  cb_response :: bool
  cb_exception :: bool
  cb_cookie :: "'k option"

datatype 'k callback_call = On_response int "'k option" | On_exception string "'k option"

definition newCallback_IoChannel_send ::
    "(bool \<Rightarrow> unit res) \<Rightarrow> bool \<Rightarrow> bool \<Rightarrow> 'k option \<Rightarrow> 'k send_callback res" where
  "newCallback_IoChannel_send check cb excb cookie =
     res_bind (check (cb \<or> excb)) (\<lambda>_.
     Ok \<lparr>cb_response = cb, cb_exception = excb, cb_cookie = cookie\<rparr>)"

text \<open>\<open>begin_send\<close>: the result is kept with the callback, which the library completes when the answer is there.\<close>

definition begin_send ::
    "'s outgoing \<Rightarrow> codec \<Rightarrow> string \<Rightarrow> string \<Rightarrow> byte list \<Rightarrow> 'k send_callback option \<Rightarrow> 's
     \<Rightarrow> (AsyncResult \<times> 'k send_callback option) res \<times> 's" where
  "begin_send lib k nodeid msgid data cb s =
     (let (r, s) = iceI_begin_send lib k nodeid msgid data s in (res_bind r (\<lambda>result. Ok (result, cb)), s))"

definition callback_completed ::
    "'s outgoing \<Rightarrow> codec \<Rightarrow> AsyncResult \<Rightarrow> 'k send_callback \<Rightarrow> 'k callback_call list res" where
  "callback_completed lib k result cb =
     (case end_send lib k result of
        Ok ret \<Rightarrow> Ok (if cb_response cb then [On_response ret (cb_cookie cb)] else [])
      | Throw (Ice_Exception w) \<Rightarrow> Ok (if cb_exception cb then [On_exception w (cb_cookie cb)] else [])
      | Throw x \<Rightarrow> Throw x
      | Blocks \<Rightarrow> Blocks)"

section \<open>SyncClient::send with static calls\<close>

text \<open>
  Every attempt has the library as it behaves then, the nanoseconds until the caller looked at its
  clock and those by which the sleep after it overran.
\<close>

fun static_loop ::
    "codec \<Rightarrow> string \<Rightarrow> string \<Rightarrow> byte list \<Rightarrow> int \<Rightarrow> SimpleTimer \<Rightarrow> unit res \<Rightarrow> int \<Rightarrow> ('s outgoing \<times> int \<times> int) list \<Rightarrow> 's
     \<Rightarrow> nat \<times> unit res \<times> 's" where
  "static_loop k self_nodeid msg_id data tmo tm event now [] s = (0, Blocks, s)"
| "static_loop k self_nodeid msg_id data tmo tm event now ((lib, took, late) # as) s =
     (let (r, s) = proxy_send lib k self_nodeid msg_id data s in
      case r of
        Ok _ \<Rightarrow> (1, Ok (), s)
      | Throw (Ice_Exception _) \<Rightarrow>
          if to_u64 (ms_elapse (now + took) tm) \<ge> tmo then (1, event, s)
          else let (n, r, s) = static_loop k self_nodeid msg_id data tmo tm event (now + took + 1000000000 + late) as s in
            (Suc n, r, s)
      | Throw x \<Rightarrow> (1, Throw x, s)
      | Blocks \<Rightarrow> (1, Blocks, s))"

definition static_send ::
    "codec \<Rightarrow> string \<Rightarrow> string \<Rightarrow> string \<Rightarrow> byte list \<Rightarrow> int \<Rightarrow> ('s outgoing \<times> int \<times> int) list \<Rightarrow> 'p BaseClient \<Rightarrow> 's
     \<Rightarrow> nat \<times> int res \<times> 's" where
  "static_send k self_nodeid remote_nodeid msg_id data now as c s =
     (if data = [] then (0, Throw (Undefined ''vector index''), s)
      else case bc_send_timeout c of
        None \<Rightarrow>
          (case as of
             [] \<Rightarrow> (0, Blocks, s)
           | (lib, _) # _ \<Rightarrow>
               let (r, s) = proxy_send lib k self_nodeid msg_id data s in
               (1, case r of
                     Ok _ \<Rightarrow> Ok (int (length data))
                   | Throw (Ice_Exception _) \<Rightarrow> Throw (Undefined ''uninitialised'')
                   | Throw x \<Rightarrow> Throw x
                   | Blocks \<Rightarrow> Blocks, s))
      | Some t \<Rightarrow>
          let (n, r, s) = static_loop k self_nodeid msg_id data t (timer_new now)
            (HANDLE_EXCEPTION_EVENT C_EVENT_CODE_SEND_DATA_TIMEOUT (bc_task_id c)
              [StrArg self_nodeid, StrArg remote_nodeid, LongArg (to_i64 t)]) now as s in
          (n, res_bind r (\<lambda>_. Ok (int (length data))), s))"

section \<open>A call and its answer\<close>

text \<open>
  What the network may do to one call: deliver it and its answer, lose the request, or lose the
  answer. In the last two cases the library reports some Ice exception.
\<close>

type_synonym conns = "string \<rightharpoonup> byte list list ClientConnection"

datatype fault = Delivered | Request_lost string | Answer_lost string

definition faulty ::
    "(string \<Rightarrow> operation_mode \<Rightarrow> byte list \<Rightarrow> 's \<Rightarrow> reply option \<times> 's) \<Rightarrow> fault \<Rightarrow> 's outgoing" where
  "faulty answer f =
     \<lparr>og_twoway_only = (\<lambda>_. Ok ()), og_prepare = (\<lambda>_ _. Ok ()),
      og_invoke = (\<lambda>operation mode inp s.
        case f of
          Delivered \<Rightarrow> (case answer operation mode inp s of (r, s) \<Rightarrow> (Ok r, s))
        | Request_lost w \<Rightarrow> (Throw (Ice_Exception w), s)
        | Answer_lost w \<Rightarrow> (Ok (Some (Local_failure w)), snd (answer operation mode inp s))),
      og_check = (\<lambda>_ _. Ok ())\<rparr>"

definition fault_attempt :: "fault \<times> int \<times> int \<Rightarrow> attempt" where
  "fault_attempt a = \<lparr>at_executed = (case fst a of Request_lost _ \<Rightarrow> False | _ \<Rightarrow> True),
     at_failed = (fst a \<noteq> Delivered), at_took = fst (snd a), at_late = snd (snd a)\<rparr>"

text \<open>
  What Ice documents about a twoway call that works: the request reaches the dispatch of the
  servant, and the answer of the servant reaches the caller. \<open>answer\<close> is that part of the library.
\<close>

locale ice_transport = ice_codec k for k :: codec +
  fixes check :: "operation_mode \<Rightarrow> operation_mode \<Rightarrow> unit res"
    and cb :: nat
    and answer :: "string \<Rightarrow> operation_mode \<Rightarrow> byte list \<Rightarrow> conns \<Rightarrow> reply option \<times> conns"
  assumes mode_law: "check mode mode = Ok ()"
    and answer_law: "iceDispatch operation = Ok D_send \<Longrightarrow> in_start_encaps k inp = Ok (e, b) \<Longrightarrow>
      iceD_send check (\<lambda>m d c. Ok (conn_write_q m d c)) k cb mode inp conns = Ok ([IceResponse cb ret], conns') \<Longrightarrow>
      answer operation mode inp conns = (Some (Reply (amd_ice_response k (encaps_encoding e) ret)), conns')"
begin

text \<open>The answer of the servant is what the proxy returns.\<close>

lemma response_roundtrip:
  assumes "0 \<le> ret" "ret < 2 ^ 31" "og_check lib \<lparr>ar_operation = p, ar_reply = Some (Reply (amd_ice_response k (default_encoding k) ret))\<rparr> ''send'' = Ok ()"
  shows "end_send lib k \<lparr>ar_operation = p, ar_reply = Some (Reply (amd_ice_response k (default_encoding k) ret))\<rparr> = Ok ret"
proof -
  have "amd_ice_response k (default_encoding k) ret =
      out_end_encaps (fst (out_start_encaps k [])) (snd (out_start_encaps k []) @ ice_write_int ret)"
    by (simp add: amd_ice_response_def split: prod.split)
  moreover have "ice_read_int (ice_write_int ret) = Ok (ret, [])"
    using le_i32_bytes [OF assms(1,2)] by (simp add: ice_read_int_def ice_write_int_def)
  ultimately show ?thesis
    using assms(3) encaps_roundtrip [of "ice_write_int ret"] end_roundtrip
    by (simp add: end_send_def ice_write_int_def)
qed

text \<open>A request of the proxy is executed by the servant, whose answer is success.\<close>

lemma answer_send:
  assumes "length self < 2 ^ 31" "length msg < 2 ^ 31" "length data < 2 ^ 31"
    "length (write_send_params k self msg data) < 2 ^ 31" "conns self = Some c"
  shows "answer ''send'' Idempotent (write_send_params k self msg data) conns =
    (Some (Reply (amd_ice_response k (default_encoding k) 0)), conns(self \<mapsto> conn_write_q msg data c))"
proof -
  note send_params_encaps [OF assms(4)]
  moreover have "iceDispatch ''send'' = Ok D_send" by code_simp
  moreover have "iceD_send check (\<lambda>m d c. Ok (conn_write_q m d c)) k cb Idempotent (write_send_params k self msg data) conns =
      Ok ([IceResponse cb 0], conns(self \<mapsto> conn_write_q msg data c))"
    using static_send_stores [of k check self msg data cb conns] ice_codec_axioms mode_law assms by simp
  ultimately show ?thesis using answer_law [of "''send''"] by (metis encaps.select_convs(1))
qed

lemma proxy_send_faulty:
  assumes "length self < 2 ^ 31" "length msg < 2 ^ 31" "length data < 2 ^ 31"
    "length (write_send_params k self msg data) < 2 ^ 31" "conns self = Some c"
  shows "proxy_send (faulty answer f) k self msg data conns =
    (case f of
       Delivered \<Rightarrow> (Ok 0, conns(self \<mapsto> conn_write_q msg data c))
     | Request_lost w \<Rightarrow> (Throw (Ice_Exception w), conns)
     | Answer_lost w \<Rightarrow> (Throw (Ice_Exception w), conns(self \<mapsto> conn_write_q msg data c)))"
  using answer_send [where conns = conns, OF assms] response_roundtrip [of 0 "faulty answer f" "''send''"]
  by (cases f) (simp_all add: proxy_send_def iceI_begin_send_def faulty_def end_send_def)

text \<open>An asynchronous call reports the answer or the loss to its callback; it never throws at its caller.\<close>

lemma async_call_reported:
  assumes "length self < 2 ^ 31" "length msg < 2 ^ 31" "length data < 2 ^ 31"
    "length (write_send_params k self msg data) < 2 ^ 31" "conns self = Some c"
  shows "\<exists>result conns'. begin_send (faulty answer f) k self msg data (Some h) conns = (Ok (result, Some h), conns') \<and>
    callback_completed (faulty answer f) k result h =
      Ok (case f of
            Delivered \<Rightarrow> if cb_response h then [On_response 0 (cb_cookie h)] else []
          | Request_lost w \<Rightarrow> if cb_exception h then [On_exception w (cb_cookie h)] else []
          | Answer_lost w \<Rightarrow> if cb_exception h then [On_exception w (cb_cookie h)] else [])"
  using answer_send [where conns = conns, OF assms] response_roundtrip [of 0 "faulty answer f" "''send''"]
  by (cases f) (simp_all add: begin_send_def callback_completed_def iceI_begin_send_def faulty_def end_send_def)

text \<open>The loop over real calls is the loop over attempts, and its effect on the servant.\<close>

lemma static_loop_refines:
  assumes "length self < 2 ^ 31" "length msg < 2 ^ 31" "length data < 2 ^ 31"
    "length (write_send_params k self msg data) < 2 ^ 31" "conns self = Some c"
    "static_loop k self msg data t tm event now (map (\<lambda>(f, u). (faulty answer f, u)) fs) conns = (n, r, conns')"
  shows "retry_loop t 1000000000 tm event now (map fault_attempt fs) = (n, r) \<and>
    conns' = conns(self \<mapsto> (conn_write_q msg data ^^ length (filter at_executed (take n (map fault_attempt fs)))) c)"
  using assms(5,6)
proof (induction fs arbitrary: now conns c n)
  case Nil
  then show ?case by (auto simp: map_upd_triv)
next
  case (Cons a fs)
  obtain f u v where a: "a = (f, u, v)" by (metis prod_cases3)
  note call = proxy_send_faulty [where conns = conns, OF assms(1-4) Cons.prems(1), of f]
  let ?c' = "case f of Request_lost _ \<Rightarrow> c | _ \<Rightarrow> conn_write_q msg data c"
  let ?conns = "conns(self \<mapsto> ?c')"
  show ?case
  proof (cases "f \<noteq> Delivered \<and> \<not> to_u64 (ms_elapse (now + u) tm) \<ge> t")
    case False
    then show ?thesis using Cons.prems call a
      by (cases f) (auto simp: fault_attempt_def map_upd_triv)
  next
    case True
    obtain m where m: "static_loop k self msg data t tm event (now + u + 1000000000 + v) (map (\<lambda>(f, u). (faulty answer f, u)) fs) ?conns = (m, r, conns')"
        "n = Suc m"
      using Cons.prems call a True by (cases f) (auto simp: map_upd_triv split: prod.splits)
    have "?conns self = Some ?c'" by simp
    from Cons.IH [OF this m(1)] show ?thesis
      using True m(2) a by (cases f) (auto simp: fault_attempt_def funpow_swap1)
  qed
qed

end

section \<open>Properties\<close>

text \<open>
  C21. Static calls are the dynamic ones. Over a network that may lose requests and answers,
  \<open>send\<close> through the generated proxy, the dispatch, the servant and its answer makes the attempts and
  gives the result of the loop over attempts, and the receiving node has stored the data once for
  every request that reached it, at least once when \<open>send\<close> returns.
\<close>

theorem static_send_delivers:
  assumes "ice_transport k check cb answer" "length self < 2 ^ 31" "length msg < 2 ^ 31" "length data < 2 ^ 31"
    "length (write_send_params k self msg data) < 2 ^ 31" "conns self = Some c"
    "static_send k self remote msg data now (map (\<lambda>(f, u). (faulty answer f, u)) fs) client conns = (n, r, conns')"
  shows "client_send self remote data now (map fault_attempt fs) client = (n, r) \<and>
    (\<exists>c' m. conns' = conns(self \<mapsto> c') \<and> queued c' = (queued c)(msg := queued c msg @ replicate m data) \<and>
      m = length (filter at_executed (take n (map fault_attempt fs))) \<and> (\<forall>len. r = Ok len \<longrightarrow> 0 < m \<and> len = int (length data)))"
proof -
  let ?as = "map fault_attempt fs"
  let ?m = "length (filter at_executed (take n ?as))"
  have l: "client_send self remote data now ?as client = (n, r) \<and> conns' = conns(self \<mapsto> (conn_write_q msg data ^^ ?m) c)"
  proof (cases "data = [] \<or> bc_send_timeout client = None")
    case None: True
    show ?thesis
    proof (cases fs)
      case Nil
      then show ?thesis using assms(6,7) None by (auto simp: static_send_def client_send_def map_upd_triv)
    next
      case (Cons a rest)
      obtain f u v where a: "a = (f, u, v)" by (metis prod_cases3)
      show ?thesis
        using ice_transport.proxy_send_faulty [where conns = conns, OF assms(1-6), of f] assms(6,7) None Cons a
        by (cases f) (auto simp: static_send_def client_send_def fault_attempt_def map_upd_triv)
    qed
  next
    case False
    then obtain t where Some: "bc_send_timeout client = Some t" "data \<noteq> []" by auto
    then obtain r0 where r0: "r = res_bind r0 (\<lambda>_. Ok (int (length data)))"
        "static_loop k self msg data t (timer_new now) (HANDLE_EXCEPTION_EVENT C_EVENT_CODE_SEND_DATA_TIMEOUT (bc_task_id client)
          [StrArg self, StrArg remote, LongArg (to_i64 t)]) now (map (\<lambda>(f, u). (faulty answer f, u)) fs) conns = (n, r0, conns')"
      using assms(7) by (auto simp: static_send_def split: prod.splits)
    from ice_transport.static_loop_refines [where conns = conns, OF assms(1-6) r0(2)] show ?thesis
      using r0(1) Some by (simp add: client_send_def)
  qed
  moreover have "0 < ?m \<and> len = int (length data)" if "r = Ok len" for len
  proof -
    have s: "0 < n" "n \<le> length ?as" "\<not> at_failed (?as ! (n - 1))" "len = int (length data)"
      using client_send_Ok [of self remote data now ?as client n len] l that by simp_all
    then have "at_executed (?as ! (n - 1))" by (simp add: fault_attempt_def split: fault.split)
    then show ?thesis using executed_last [OF s(1,2)] s(4) by simp
  qed
  ultimately show ?thesis using writes_queued by blast
qed

text \<open>
  A completed asynchronous call is reported once, to the method it concerns, with its cookie; it is
  reported to nobody only when that method is missing.
\<close>

lemma callback_reports_once:
  assumes "newCallback_IoChannel_send check True True cookie = Ok cb" "callback_completed lib k result cb = Ok calls"
  shows "(\<exists>ret. end_send lib k result = Ok ret \<and> calls = [On_response ret cookie]) \<or>
    (\<exists>w. end_send lib k result = Throw (Ice_Exception w) \<and> calls = [On_exception w cookie])"
  using assms by (auto simp: newCallback_IoChannel_send_def callback_completed_def res_bind_Ok_iff split: res.splits cxx_error.splits)

section \<open>An instance: a direct connection\<close>

text \<open>A library that calls the dispatch at once.\<close>

definition direct_answer :: "codec \<Rightarrow> nat \<Rightarrow> string \<Rightarrow> operation_mode \<Rightarrow> byte list \<Rightarrow> conns \<Rightarrow> reply option \<times> conns" where
  "direct_answer k cb operation mode inp conns =
     (case (iceDispatch operation, in_start_encaps k inp,
            iceD_send (\<lambda>_ _. Ok ()) (\<lambda>m d c. Ok (conn_write_q m d c)) k cb mode inp conns) of
        (Ok D_send, Ok (e, _), Ok ([IceResponse _ ret], conns)) \<Rightarrow>
          (Some (Reply (amd_ice_response k (encaps_encoding e) ret)), conns)
      | _ \<Rightarrow> (Some (Local_failure ''UnknownException''), conns))"

interpretation direct: ice_transport standard_codec "\<lambda>_ _. Ok ()" cb "direct_answer standard_codec cb" for cb
  by unfold_locales (simp_all add: direct_answer_def)

theorem static_send_delivers_witness:
  "\<exists>conns' c'. static_send standard_codec ''p0'' ''p1'' ''m'' [1, 2, 3] 0
      (map (\<lambda>(f, u). (faulty (direct_answer standard_codec 4) f, u)) [(Answer_lost ''TimeoutException'', 500000000, 0), (Delivered, 100000000, 0)])
      example_client [''p0'' \<mapsto> conn_new ''p0''] = (2, Ok 3, conns') \<and>
    conns' ''p0'' = Some c' \<and> queued c' ''m'' = [[1, 2, 3], [1, 2, 3]]"
proof -
  let ?fs = "[(Answer_lost ''TimeoutException'', 500000000, 0), (Delivered, 100000000, 0)] :: (fault \<times> int \<times> int) list"
  let ?conns = "[''p0'' \<mapsto> conn_new ''p0''] :: conns"
  have as: "map fault_attempt ?fs = example_attempts" by (simp add: fault_attempt_def example_attempts_def)
  have len: "length (write_send_params standard_codec ''p0'' ''m'' [1, 2, 3]) = 15" by code_simp
  obtain n r conns' where s: "static_send standard_codec ''p0'' ''p1'' ''m'' [1, 2, 3] 0
      (map (\<lambda>(f, u). (faulty (direct_answer standard_codec 4) f, u)) ?fs) example_client ?conns = (n, r, conns')"
    by (metis prod_cases3)
  have "client_send ''p0'' ''p1'' [1, 2, 3] 0 (map fault_attempt ?fs) example_client = (n, r) \<and>
    (\<exists>c' m. conns' = ?conns(''p0'' \<mapsto> c') \<and> queued c' = (queued (conn_new ''p0''))(''m'' := queued (conn_new ''p0'') ''m'' @ replicate m [1, 2, 3]) \<and>
      m = length (filter at_executed (take n (map fault_attempt ?fs))) \<and> (\<forall>len. r = Ok len \<longrightarrow> 0 < m \<and> len = int (length [1, 2, 3 :: byte])))"
    by (rule static_send_delivers [OF direct.ice_transport_axioms _ _ _ _ _ s]) (simp_all add: len)
  then obtain c' where c: "n = 2" "r = Ok 3" "conns' = ?conns(''p0'' \<mapsto> c')"
      "queued c' ''m'' = queued (conn_new ''p0'') ''m'' @ [[1, 2, 3], [1, 2, 3]]"
    unfolding as example_sent by (auto simp: example_attempts_def)
  then have "queued c' ''m'' = [[1, 2, 3], [1, 2, 3]]" by (simp add: queued_def conn_new_def)
  then show ?thesis using s c(1-3) by auto
qed

end
