(* ===== verification/Ice_Cpp11.thy ===== *)
theory Ice_Cpp11
  imports Ice_Proxy
begin

text \<open>
  The other half of \<^verbatim>\<open>core/src/io_channel_ice.cpp\<close> and \<^verbatim>\<open>core/include/io_channel_ice.h\<close>: the C++11 mapping that
  the Slice compiler generates beside the C++98 one. The builds of the repository select the C++98
  mapping; this theory shows that the two are the same program on the wire, so that a peer built
  with either of them can be talked to.
\<close>

section \<open>Variadic marshalling\<close>

text \<open>The values the operation marshals, and \<open>writeAll\<close> and \<open>readAll\<close> of the streams, which go through
  them one after the other.\<close>

datatype slice_type = T_string | T_bytes | T_int
datatype slice_value = S_string string | S_bytes "byte list" | S_int int

definition write_value :: "codec \<Rightarrow> slice_value \<Rightarrow> byte list" where
  "write_value k v = (case v of S_string s \<Rightarrow> write_str k s | S_bytes d \<Rightarrow> write_seq k d | S_int i \<Rightarrow> ice_write_int i)"

definition read_value :: "codec \<Rightarrow> slice_type \<Rightarrow> byte list \<Rightarrow> (slice_value \<times> byte list) res" where
  "read_value k t b =
     (case t of
        T_string \<Rightarrow> res_bind (read_str k b) (\<lambda>(s, b). Ok (S_string s, b))
      | T_bytes \<Rightarrow> res_bind (read_seq k b) (\<lambda>(d, b). Ok (S_bytes d, b))
      | T_int \<Rightarrow> res_bind (ice_read_int b) (\<lambda>(i, b). Ok (S_int i, b)))"

fun writeAll :: "codec \<Rightarrow> slice_value list \<Rightarrow> byte list \<Rightarrow> byte list" where
  "writeAll k [] b = b"
| "writeAll k (v # vs) b = writeAll k vs (b @ write_value k v)"

fun readAll :: "codec \<Rightarrow> slice_type list \<Rightarrow> byte list \<Rightarrow> (slice_value list \<times> byte list) res" where
  "readAll k [] b = Ok ([], b)"
| "readAll k (t # ts) b =
     res_bind (read_value k t b) (\<lambda>(v, b).
     res_bind (readAll k ts b) (\<lambda>(vs, b). Ok (v # vs, b)))"

section \<open>The data structure\<close>

text \<open>\<open>ice_tuple\<close> names the members in their order; writing a struct writes its tuple.\<close>

definition ice_tuple :: "DataStruct \<Rightarrow> slice_value list" where
  "ice_tuple v = [S_string (ds_msgid v), S_string (ds_nodeid v), S_bytes (ds_data v)]"

definition read_DataStruct11 :: "codec \<Rightarrow> byte list \<Rightarrow> (DataStruct \<times> byte list) res" where
  "read_DataStruct11 k b =
     res_bind (readAll k [T_string, T_string, T_bytes] b) (\<lambda>(vs, b).
     case vs of
       [S_string m, S_string n, S_bytes d] \<Rightarrow> Ok (\<lparr>ds_msgid = m, ds_nodeid = n, ds_data = d\<rparr>, b)
     | _ \<Rightarrow> Throw (Undefined ''type''))"

section \<open>The proxy\<close>

text \<open>
  \<open>_iceI_send\<close>: the lambda for user exceptions rethrows \<open>SendDataException\<close> and swallows every other one,
  after which the library reports \<open>UnknownUserException\<close>.
\<close>

definition user_exception11 :: "string \<Rightarrow> unit res" where
  "user_exception11 w = (if w = SendDataException_id then Throw (Ice_Exception SendDataException_id) else Ok ())"

definition write_params11 :: "codec \<Rightarrow> string \<Rightarrow> string \<Rightarrow> byte list \<Rightarrow> byte list" where
  "write_params11 k nodeid msgid data =
     (let (start, b) = out_start_encaps k [] in
      out_end_encaps start (writeAll k [S_string nodeid, S_string msgid, S_bytes data] b))"

text \<open>The response handler of the library's promise (\<^verbatim>\<open>OutgoingAsync.h\<close>), and \<open>send\<close>, which waits for it.\<close>

definition response11 :: "codec \<Rightarrow> reply option \<Rightarrow> int res" where
  "response11 k r =
     (case r of
        None \<Rightarrow> Blocks
      | Some (Local_failure w) \<Rightarrow> Throw (Ice_Exception w)
      | Some (User_reply w) \<Rightarrow> res_bind (user_exception11 w) (\<lambda>_. Throw (Ice_Exception ''UnknownUserException''))
      | Some (Reply b) \<Rightarrow>
          res_bind (in_start_encaps k b) (\<lambda>(e, b).
          res_bind (ice_read_int b) (\<lambda>(v, b).
          res_bind (in_end_encaps k e b) (\<lambda>_. Ok v))))"

definition proxy_send11 ::
    "'s outgoing \<Rightarrow> codec \<Rightarrow> string \<Rightarrow> string \<Rightarrow> byte list \<Rightarrow> 's \<Rightarrow> int res \<times> 's" where
  "proxy_send11 lib k nodeid msgid data s =
     (case og_twoway_only lib ''send'' of
        Throw x \<Rightarrow> (Throw x, s)
      | Blocks \<Rightarrow> (Blocks, s)
      | Ok _ \<Rightarrow>
          (case og_prepare lib ''send'' Idempotent of
             Throw x \<Rightarrow> (Throw x, s)
           | Blocks \<Rightarrow> (Blocks, s)
           | Ok _ \<Rightarrow>
               let (r, s) = og_invoke lib ''send'' Idempotent (write_params11 k nodeid msgid data) s in
               (res_bind r (response11 k), s)))"

section \<open>The servant\<close>

definition iceC_IoChannel_ids11 :: "string list" where
  "iceC_IoChannel_ids11 = [''::ChannelSdk::IoChannel'', ''::Ice::Object'']"

definition iceC_IoChannel_ops :: "string list" where
  "iceC_IoChannel_ops = [''ice_id'', ''ice_ids'', ''ice_isA'', ''ice_ping'', ''send'']"

definition ice_isA11 :: "string \<Rightarrow> bool" where
  "ice_isA11 s = binary_search iceC_IoChannel_ids11 s"

definition iceDispatch11 :: "string \<Rightarrow> dispatch_target res" where
  "iceDispatch11 operation =
     (let first = lower_bound iceC_IoChannel_ops operation;
          last = upper_bound iceC_IoChannel_ops operation in
      if first = last then Throw (Ice_Exception ''OperationNotExistException'')
      else if first = 0 then Ok D_ice_id
      else if first = 1 then Ok D_ice_ids
      else if first = 2 then Ok D_ice_isA
      else if first = 3 then Ok D_ice_ping
      else if first = 4 then Ok D_send
      else Throw (Undefined ''assert''))"

text \<open>
  \<open>_iceD_send\<close>: the parameters are read and handed to \<open>sendAsync\<close> with a callback that writes the answer.
  The result is the state of the servant and the answers it has given.
\<close>

definition response_cb11 :: "codec \<Rightarrow> byte \<times> byte \<Rightarrow> int \<Rightarrow> byte list" where
  "response_cb11 k encoding ret =
     (let (start, b) = out_start_encaps (k\<lparr>default_encoding := encoding\<rparr>) [] in
      out_end_encaps start (writeAll k [S_int ret] b))"

definition iceD_send11 ::
    "(operation_mode \<Rightarrow> operation_mode \<Rightarrow> unit res) \<Rightarrow> (string \<Rightarrow> string \<Rightarrow> byte list \<Rightarrow> 's \<Rightarrow> (int list \<times> 's) res)
     \<Rightarrow> codec \<Rightarrow> operation_mode \<Rightarrow> byte list \<Rightarrow> 's \<Rightarrow> (byte list list \<times> 's) res" where
  "iceD_send11 check sendAsync k mode inp s =
     res_bind (check Idempotent mode) (\<lambda>_.
     res_bind (in_start_encaps k inp) (\<lambda>(e, b).
     res_bind (readAll k [T_string, T_string, T_bytes] b) (\<lambda>(vs, b).
     res_bind (in_end_encaps k e b) (\<lambda>_.
     case vs of
       [S_string nodeid, S_string msgid, S_bytes data] \<Rightarrow>
         res_bind (sendAsync nodeid msgid data s) (\<lambda>(rets, s). Ok (map (response_cb11 k (encaps_encoding e)) rets, s))
     | _ \<Rightarrow> Throw (Undefined ''type'')))))"

section \<open>Properties\<close>

text \<open>The answers a C++98 servant writes for the events of a request.\<close>

definition written_answers :: "codec \<Rightarrow> byte \<times> byte \<Rightarrow> wq_event list \<Rightarrow> byte list list" where
  "written_answers k encoding evs =
     concat (map (\<lambda>ev. case ev of IceResponse _ ret \<Rightarrow> [amd_ice_response k encoding ret] | _ \<Rightarrow> []) evs)"

lemma request_same: "write_params11 k nodeid msgid data = write_send_params k nodeid msgid data"
  by (simp add: write_params11_def write_send_params_def write_value_def split: prod.split)

lemma response_same: "response_cb11 k = amd_ice_response k"
  by (simp add: fun_eq_iff response_cb11_def amd_ice_response_def write_value_def split: prod.split)

lemma readAll_params:
  "readAll k [T_string, T_string, T_bytes] b =
     res_bind (read_str k b) (\<lambda>(x, b). res_bind (read_str k b) (\<lambda>(y, b). res_bind (read_seq k b) (\<lambda>(d, b).
     Ok ([S_string x, S_string y, S_bytes d], b))))"
  by (simp add: read_value_def res_bind_assoc case_prod_unfold)

lemma proxy_same:
  assumes "\<And>r. og_check lib r ''send'' = Ok ()"
  shows "proxy_send11 lib k nodeid msgid data s = proxy_send lib k nodeid msgid data s"
proof -
  have e: "response11 k r = end_send lib k \<lparr>ar_operation = ''send'', ar_reply = r\<rparr>" for r
    by (simp add: response11_def end_send_def assms user_exception11_def split: option.split reply.split)
  obtain r s' where i: "og_invoke lib ''send'' Idempotent (write_send_params k nodeid msgid data) s = (r, s')" by fastforce
  show ?thesis
    by (cases "og_twoway_only lib ''send''"; cases "og_prepare lib ''send'' Idempotent"; cases r)
      (auto simp: proxy_send11_def proxy_send_def iceI_begin_send_def request_same i e
        end_send_def assms split: cxx_error.split)
qed

text \<open>
  C22. The two mappings are one program on the wire. On the same library, the C++11 proxy makes the
  same call and returns or throws the same as the C++98 one, whatever comes back; both dispatches
  choose the same handler; from the same request a servant that stores the same reads the same
  parameters, fails the same way and writes the same answer; and a \<open>DataStruct\<close> is written and
  read the same.
\<close>

theorem mappings_agree:
  assumes "\<And>r. og_check lib r ''send'' = Ok ()"
  shows "proxy_send11 lib k nodeid msgid data s = proxy_send lib k nodeid msgid data s \<and>
    iceDispatch11 operation = iceDispatch operation \<and> ice_isA11 typeId = servant_ice_isA typeId \<and>
    iceD_send11 check (\<lambda>n m d c. res_bind (store_from wr n m d c) (\<lambda>c. Ok ([RET_SUCCEED_CODE], c))) k mode inp conns =
      res_bind (iceD_send check wr k cb mode inp conns) (\<lambda>(evs, conns).
      res_bind (in_start_encaps k inp) (\<lambda>(e, _). Ok (written_answers k (encaps_encoding e) evs, conns))) \<and>
    writeAll k (ice_tuple v) b = write_DataStruct k v b \<and> read_DataStruct11 k b = read_DataStruct k b"
proof -
  have "iceDispatch11 operation = iceDispatch operation"
    by (simp add: iceDispatch11_def iceDispatch_def iceC_IoChannel_ops_def iceC_IoChannel_all_def)
  moreover have "ice_isA11 typeId = servant_ice_isA typeId"
    by (simp add: ice_isA11_def servant_ice_isA_def iceC_IoChannel_ids11_def iceC_IoChannel_ids_def)
  moreover have "iceD_send11 check (\<lambda>n m d c. res_bind (store_from wr n m d c) (\<lambda>c. Ok ([RET_SUCCEED_CODE], c))) k mode inp conns =
      res_bind (iceD_send check wr k cb mode inp conns) (\<lambda>(evs, conns).
      res_bind (in_start_encaps k inp) (\<lambda>(e, _). Ok (written_answers k (encaps_encoding e) evs, conns)))"
    by (cases "in_start_encaps k inp")
      (auto simp: iceD_send11_def iceD_send_def read_send_params_def servant_send_sync_def readAll_params response_same
        written_answers_def res_bind_assoc case_prod_unfold simp del: readAll.simps)
  moreover have "writeAll k (ice_tuple v) b = write_DataStruct k v b"
    by (simp add: ice_tuple_def write_DataStruct_def write_value_def)
  moreover have "read_DataStruct11 k b = read_DataStruct k b"
    by (simp add: read_DataStruct11_def read_DataStruct_def readAll_params res_bind_assoc case_prod_unfold del: readAll.simps)
  ultimately show ?thesis using proxy_same [OF assms] by blast
qed

theorem mappings_agree_witness:
  "proxy_send11 (faulty (direct_answer standard_codec 4) Delivered) standard_codec ''p0'' ''m'' [1] [''p0'' \<mapsto> conn_new ''p0'']
    = (Ok 0, [''p0'' \<mapsto> conn_write_q ''m'' [1] (conn_new ''p0'')])"
proof -
  have len: "length (write_send_params standard_codec ''p0'' ''m'' [1]) = 13" by code_simp
  have "og_check (faulty (direct_answer standard_codec 4) Delivered) r ''send'' = Ok ()" for r by (simp add: faulty_def)
  then have "proxy_send11 (faulty (direct_answer standard_codec 4) Delivered) standard_codec ''p0'' ''m'' [1] [''p0'' \<mapsto> conn_new ''p0''] =
      proxy_send (faulty (direct_answer standard_codec 4) Delivered) standard_codec ''p0'' ''m'' [1] [''p0'' \<mapsto> conn_new ''p0'']"
    by (intro conjunct1 [OF mappings_agree])
  then show ?thesis
    using direct.proxy_send_faulty [of "''p0''" "''m''" "[1]" "[''p0'' \<mapsto> conn_new ''p0'']" "conn_new ''p0''" 4 Delivered] len by simp
qed

end
