(* ===== verification/Spec2Isabelle.thy ===== *)
theory Spec2Isabelle
  imports Stream_Delivery Teardown Ice_Cpp11
begin

text \<open>
  A verification of the channel SDK: the C++ library under \<^verbatim>\<open>core/\<close> that lets the nodes of a task
  send each other messages over ZeroC Ice.

  \<^bold>\<open>How the program is put together.\<close> Every node runs the library in its own process. A JSON document
  names the nodes, their roles and the policy of who sends to whom (\<open>ChannelConfig\<close>).
  \<open>IoChannelImpl::CreateIoChannel\<close> reads it, works out the clients and the servers of this node, and
  initialises a network (\<open>ViaNetIO\<close>): a \<open>ClientConnection\<close> per client, which stores what that client
  sends by message identifier, a server with a servant (\<open>IoChannelI\<close>) that writes into them, and a
  \<open>SyncClient\<close> per server. Then it either pings its servers or exchanges synchronisation flags. The
  result is a \<open>TcpChannel\<close>, used directly or through the Python interface (\<open>APIManager\<close>). \<open>Send\<close> calls
  the peer's servant, with retries; \<open>Recv\<close> waits on the connection of the peer. Build options choose
  queues of messages or ring buffers as storage (\<open>USE_BUFFER\<close>), dynamic or generated calls
  (\<open>STATIC_CALL\<close>), and a synchronous or an asynchronous server (\<open>ASYNC_SERVER\<close>), whose \<open>WorkQueue\<close>
  threads do the storing.

  \<^bold>\<open>Foundations.\<close> \<open>Chan_Prelude\<close> has the results of C++ calls (a value, an exception, a wait nobody
  ends, or undefined behaviour), fixed-width integers, raw memory with a checked \<open>memcpy\<close>, and
  C strings. \<open>Cxx_Float\<close> rounds to \<open>float\<close> and \<open>double\<close> and converts back with the language's range
  condition. \<open>Std_Containers\<close> has \<open>std::set\<close> and \<open>std::map\<close> as key-ordered lists, \<open>Json\<close> the accessors
  of rapidjson with their assertions, \<open>Ring\<close> the arithmetic of windows in a circular array. \<open>Fifo\<close> and
  \<open>Mailbox\<close> are interfaces: a byte queue, and a store of data by identifier.

  \<^bold>\<open>Components.\<close>
  \<^item> \<open>Timer\<close>: \<^verbatim>\<open>simple_timer\<close>. The clock is an argument, in nanoseconds.
  \<^item> \<open>Cycle_Buffer\<close>: \<^verbatim>\<open>cycle_buffer\<close>, all operations at their 32-bit width. It refines a byte queue for
    every schedule of writes and guarded reads, wrap-around and growth included; framed reads agree with
    a specification on every content and position; a write grows the buffer by the formula of the code,
    which overflows near two gigabytes.
  \<^item> \<open>Client_Connection\<close>: \<^verbatim>\<open>client_connection\<close> in both builds. Both are mailboxes, so that nothing is
    lost, mixed or reordered under any interleaving; \<open>recv\<close> returns the full length or times out after
    the whole timeout, and it does return.
  \<^item> \<open>Work_Queue\<close>: \<^verbatim>\<open>WorkQueue\<close> as a step relation of callers, worker, receivers and spurious wake-ups:
    answered exactly once, first-in first-out, no lost wake-up, drained within a bound.
  \<^item> \<open>Events\<close>: \<^verbatim>\<open>const.h\<close> and \<^verbatim>\<open>event_exception.h\<close>: constants, event messages, the reporting function, the
    identity filter. What its \<open>va_start\<close> on a local variable yields is a parameter; the other theories use
    the instance of GCC and Clang, which list the arguments passed.
  \<^item> \<open>Ice_Stream\<close> and \<open>Io_Servant\<close>: the marshalling and dispatch of the generated \<^verbatim>\<open>io_channel_ice\<close>
    (C++98 mapping) and \<^verbatim>\<open>IoChannelI\<close> in its three builds. What a client encodes is what the servant stores;
    the generated binary search is a lookup by name.
  \<^item> \<open>Ice_Proxy\<close>: the generated proxy, the servant's answer, the callback wrappers, and \<open>SyncClient::send\<close> of the
    build with static calls, which over a network with losses is the loop of the dynamic build.
  \<^item> \<open>Ice_Cpp11\<close>: the C++11 mapping of the same generated files, equal to the C++98 one on the wire.
  \<^item> \<open>Config\<close> and \<open>Topology\<close>: \<^verbatim>\<open>config\<close>. A configuration that loads is consistent; it does not depend on
    which node reads it; clients and servers are exactly those of the policy, and the two ends agree.
  \<^item> \<open>Endpoints\<close> and \<open>Clients\<close>: \<^verbatim>\<open>base_server\<close>, \<^verbatim>\<open>sync_server\<close>, \<^verbatim>\<open>base_client\<close>, \<^verbatim>\<open>sync_client\<close>. The proxy of a
    client names what the server registered; \<open>send\<close> and the ping, with their sleeps, make a bounded number
    of calls and report exactly which timeout has passed; a send that returns has been stored at least once.
  \<^item> \<open>Async_Server\<close>: \<^verbatim>\<open>async_server\<close>, the product of its work queues.
  \<^item> \<open>Net_Io\<close>: \<^verbatim>\<open>net_io\<close>. Initialisation makes one connection per client and one client object per
    server; the synchronisation is a barrier, completes, and keeps what was sent meanwhile.
  \<^item> \<open>Node_Ids\<close> and \<open>Tcp_Channel\<close>: \<^verbatim>\<open>IChannel.h\<close> and \<^verbatim>\<open>tcp_channel\<close>. The C structures handed out live on an
    explicit heap; an ownership invariant gives memory safety and the stability of the answers.
  \<^item> \<open>Io_Channel\<close>: \<^verbatim>\<open>io_channel_impl\<close> and \<^verbatim>\<open>pybind11/api_manager.h\<close>. A channel is what the configuration
    says, strangers are reported by name, two channels of one document fit together, \<open>GetPolicy\<close> prints the JSON
    text of who connects to whom.
  \<^item> \<open>Stream_Delivery\<close>: the build with ring buffers from end to end, a stream of bytes between two nodes.
  \<^item> \<open>Teardown\<close>: \<open>close\<close> and \<open>wait\<close> of the servers, the destructors, and the order in which a network is destroyed:
    the servant never meets a connection that is gone.

  This theory adds the property that spans all of them: what one node sends, the other receives, with message
  queues; \<open>Stream_Delivery\<close> has its counterpart with ring buffers.

  \<^bold>\<open>State and surroundings.\<close> Objects are records, passed and returned; a \<open>shared_ptr\<close> that two objects
  share is updated where it is kept. What other threads, the network and the clock do is an argument:
  the wake-ups of a wait, the attempts of a call, the messages that arrived, the order in which an
  \<open>unordered_map\<close> is visited. A loop that waits runs over its list of wake-ups or attempts, and is
  \<open>Blocks\<close> when the list ends first, so every theorem that something returns says how long a list is
  enough. Code outside the repository is a parameter: the JSON parser, the file system, the calls into
  libIce (their results), its string codec (the locale \<open>ice_codec\<close>, with its interpretation on the
  documented encoding), the allocator (the condition \<open>fresh_alloc\<close>).

  \<^bold>\<open>Interfaces.\<close> \<open>byte_fifo\<close> is interpreted on the ring buffer, \<open>mailbox\<close> on both builds of the
  connection, \<open>conn_build\<close> on both builds for the network, \<open>keep_first_map\<close> on the ordered maps,
  \<open>role_loop\<close> on the loops over data, result and compute nodes, \<open>ice_codec\<close> on the standard encoding, its
  extension \<open>ice_transport\<close> on a direct connection, \<open>communicator\<close> on the documented states of one;
  \<open>array_layout\<close>, interpreted on vectors and maps of identifiers, gives the \<open>owned_layout\<close> of what is
  freed as a whole.

  \<^bold>\<open>Not modelled.\<close> Of the generated \<^verbatim>\<open>io_channel_ice\<close> the slices of classes and exceptions, the casts of proxies and
  servants and the future-returning overloads, which only call libIce; reading a file (a parameter); what is
  printed to the terminal; the module definition of pybind11; vendored libraries, examples and tests. The
  initialisation of a network (\<open>Net_Io\<close>) is composed with the synchronous server; the asynchronous one is modelled
  from its constructor on.
\<close>

section \<open>From node to node\<close>

text \<open>
  C1. What is sent is received. Two nodes create their channels from the same document, the receiver
  with message queues. When \<open>Send\<close> of the first returns, it returns the length of the data; the
  second has got the data under the sender's name, behind everything that was there, once for every
  call its servant executed and at least once; and if nothing was there before, \<open>Recv\<close> of that length
  returns exactly the data, whatever the clock does, and leaves only repetitions of it.
\<close>

theorem message_delivered:
  assumes "conn_build (pf_recv pf) (pf_wr pf)" "pf_recv pf' = conn_recv_q" "pf_wr pf' = (\<lambda>m d c. Ok (conn_write_q m d c))"
    "pf_files pf' doc = pf_files pf doc" "pf_parser pf' = pf_parser pf" "pf_gm pf' = pf_gm pf"
    "ChannelConfig_of (pf_files pf) (pf_parser pf) (pf_gm pf) i doc = Ok cfg" "millis (send_timeout cfg) = Ok t"
    "api_create_channel pf env a i doc impl = Ok (p, impl1 :: ('b, 'p) IoChannelImpl)"
    "api_create_channel pf' env' b j doc impl' = Ok (q, impl2)" "i \<noteq> j" "c_str i = i" "c_str j = j"
    "api_Send j data now as impl1 = (n, Ok len)" "\<And>a. a \<in> set as \<Longrightarrow> \<not> at_failed a \<Longrightarrow> at_executed a"
    "ice_codec k" "length i < 2 ^ 31" "length data < 2 ^ 31" "length (sent_params k i '''' data) < 2 ^ 31"
  shows "\<exists>m impl3. impl3 = served write_q k (sent_params k i '''' data) (take n as) impl2 \<and> 0 < m \<and> len = int (length data) \<and>
    pending i '''' impl3 = pending i '''' impl2 @ replicate m data \<and>
    (pending i '''' impl2 = [] \<and> pf_string pf' len = Ok () \<longrightarrow>
      (\<exists>impl4. api_Recv pf' i len beg ws impl3 = Ok (map Some data, impl4) \<and> pending i '''' impl4 = replicate (m - 1) data))"
proof -
  note created = assms(9,10) [unfolded api_defs] and sent = assms(14) [unfolded api_defs]
  have build: "conn_build (pf_recv pf') (pf_wr pf')" using assms(2,3) bq.conn_build_axioms by simp
  obtain client :: "'p BaseClient" and ch io c where s: "client_send i j data now as client = (n, Ok len)"
      "ic_channel impl2 = Some (b, ch)" "tc_net_io ch = Some io" "io_client_conn_map io i = Some c" "recv_timeout c = Some t"
    by (rule send_finds_peer [OF assms(1) build assms(4-8) created assms(11) sent assms(13)])
  let ?m = "length (filter at_executed (take n as))"
  let ?c = "(conn_write_q '''' data ^^ ?m) c"
  let ?io = "io\<lparr>io_client_conn_map := (io_client_conn_map io)(i \<mapsto> ?c)\<rparr>"
  let ?impl = "served write_q k (sent_params k i '''' data) (take n as) impl2"
  have l: "0 < n" "n \<le> length as" "\<not> at_failed (as ! (n - 1))" "len = int (length data)" using client_send_Ok [OF s(1)] by simp_all
  then have m: "0 < ?m" using executed_last [OF l(1,2)] assms(15) [of "as ! (n - 1)"] by simp
  have r: "ic_channel ?impl = Some (b, ch\<lparr>tc_net_io := Some ?io\<rparr>)"
    by (rule served_channel [OF assms(16,17) _ assms(18,19) s(2-4) write_q_fold]) simp
  have q: "queued ?c '''' = pending i '''' impl2 @ replicate ?m data" using s(2-4) by (simp add: writes_queued pending_def)
  have "\<exists>impl4. api_Recv pf' i len beg ws ?impl = Ok (map Some data, impl4) \<and> pending i '''' impl4 = replicate (?m - 1) data"
    if "pending i '''' impl2 = []" "pf_string pf' len = Ok ()"
    unfolding l(4) api_defs
  proof (rule recv_pending [OF r])
    show "queued ?c '''' = data # replicate (?m - 1) data" using q that(1) m by (cases ?m) simp_all
    show "io_client_conn_map ?io i = Some ?c" by simp
    show "tc_net_io (ch\<lparr>tc_net_io := Some ?io\<rparr>) = Some ?io" by simp
    show "recv_timeout ?c = Some t" using s(5) by (simp add: writes_timeout)
  qed (use assms(2,12) that(2) l(4) in simp_all)
  moreover have "pending i '''' ?impl = pending i '''' impl2 @ replicate ?m data" using r q by (simp add: pending_def)
  ultimately show ?thesis using m l(4) by blast
qed

theorem message_delivered_witness:
  "\<exists>impl1 impl2 impl4. api_create_channel pair_platform example_env 7 ''p0'' ''pair'' IoChannelImpl_new = Ok (7, impl1) \<and>
    api_create_channel pair_platform example_env 8 ''p1'' ''pair'' IoChannelImpl_new = Ok (8, impl2) \<and>
    api_Send ''p1'' [5, 6] 0 example_attempts impl1 = (2, Ok 2) \<and>
    api_Recv pair_platform ''p0'' 2 0 []
      (served write_q standard_codec (sent_params standard_codec ''p0'' '''' [5, 6]) (take 2 example_attempts) impl2) = Ok ([Some 5, Some 6], impl4)"
proof -
  obtain impl1 where 1: "api_create_channel pair_platform example_env 7 ''p0'' ''pair'' IoChannelImpl_new = Ok (7, impl1)"
      "api_Send ''p1'' [5, 6] 0 example_attempts impl1 = (2, Ok 2)"
    using pair_sent by blast
  obtain impl2 where 2: "api_create_channel pair_platform example_env 8 ''p1'' ''pair'' IoChannelImpl_new = Ok (8, impl2)"
      "\<And>m. pending m '''' impl2 = []"
    using pair_created [OF pair_starts(2)] unfolding api_defs by blast
  have pf: "pf_recv pair_platform = conn_recv_q" "pf_wr pair_platform = write_q" "pf_string pair_platform 2 = Ok ()"
    by (simp_all add: pair_platform_def pair_with_def)
  have "\<exists>m impl3. impl3 = served write_q standard_codec (sent_params standard_codec ''p0'' '''' [5, 6]) (take 2 example_attempts) impl2 \<and> 0 < m \<and>
    (2 :: int) = int (length [5, 6 :: byte]) \<and> pending ''p0'' '''' impl3 = pending ''p0'' '''' impl2 @ replicate m [5, 6] \<and>
    (pending ''p0'' '''' impl2 = [] \<and> pf_string pair_platform 2 = Ok () \<longrightarrow>
      (\<exists>impl4. api_Recv pair_platform ''p0'' 2 0 [] impl3 = Ok (map Some [5, 6], impl4) \<and> pending ''p0'' '''' impl4 = replicate (m - 1) [5, 6]))"
    by (rule message_delivered [OF pair_build pf(1,2) refl refl refl pair_loaded pair_millis 1(1) 2(1) _ pair_wire(2,3) 1(2) pair_wire(4)
          std.ice_codec_axioms _ _ pair_wire(1)]) simp_all
  then obtain impl4 where "api_Recv pair_platform ''p0'' 2 0 []
      (served write_q standard_codec (sent_params standard_codec ''p0'' '''' [5, 6]) (take 2 example_attempts) impl2) = Ok (map Some [5, 6], impl4)"
    using 2(2) [of "''p0''"] pf(3) by (elim exE conjE) blast
  then show ?thesis using 1 2(1) by (intro exI conjI) simp_all
qed

end
